theory Spec2Isabelle
  imports Complex_Main
begin

section \<open>Errors and computations\<close>

text \<open>
  The timing model of \<^verbatim>\<open>pint/models/timing_model.py\<close> is an object whose methods read and
  write its attributes and may raise. A method is modelled as a function from the state of
  the receiver to an outcome and the state it leaves behind; a raised exception is the
  outcome \<open>Inl e\<close>, and the state it leaves behind is the state at the moment it was raised.
\<close>

datatype error = AttributeError | ValueError | KeyError | IndexError | TypeError
  | Raised string

type_synonym ('s, 'a) comp = "'s \<Rightarrow> (error + 'a) \<times> 's"

section \<open>The Cache class\<close>

text \<open>
  The attribute \<^verbatim>\<open>self.cache\<close> (its name is \<^verbatim>\<open>Cache.the_cache\<close>) is either missing
  (\<open>Absent\<close>), holds a value that is not a \<^verbatim>\<open>Cache\<close> instance (\<open>Inactive\<close>; the value
  \<^verbatim>\<open>None\<close> that \<^verbatim>\<open>TimingModel.__init__\<close> and the end of \<^verbatim>\<open>use_cache\<close> store), or
  refers to a \<^verbatim>\<open>Cache\<close> instance (\<open>Active a\<close>). Instances live in a store: \<open>heap s a\<close> are the
  attributes that \<^verbatim>\<open>setattr\<close> has put on the instance at address \<open>a\<close>, keyed by the name of
  the wrapped function, and \<open>fresh s\<close> is the next unused address. Wrapped functions are
  methods of the timing model, whose names differ from the class attributes of
  \<^verbatim>\<open>Cache\<close> itself.
\<close>

datatype attr = Absent | Inactive | Active nat

record 'v store =
  cache :: attr
  heap :: "nat \<Rightarrow> (string \<rightharpoonup> 'v)"
  fresh :: nat


definition enter_scope :: "('v, 'z) store_scheme \<Rightarrow> ('v, 'z) store_scheme" where
  "enter_scope s =
     s\<lparr>cache := Active (fresh s), heap := (heap s)(fresh s := Map.empty), fresh := Suc (fresh s)\<rparr>"

definition use_cache ::
  "(('v, 'z) store_scheme, 'r) comp \<Rightarrow> (('v, 'z) store_scheme, 'r) comp" where
  "use_cache function s =
     (case cache s of
        Absent \<Rightarrow> function s
      | Active a \<Rightarrow> function s
      | Inactive \<Rightarrow>
          (case function (enter_scope s) of
             (Inl e, s') \<Rightarrow> (Inl e, s')
           | (Inr result, s') \<Rightarrow> (Inr result, s'\<lparr>cache := Inactive\<rparr>)))"

section \<open>Arrays\<close>

text \<open>
  The numeric library is not part of the repository. Its arrays are modelled as far as the
  timing model uses them: a value is a scalar or a one-dimensional array, entries are
  idealised as reals (nothing below depends on rounding), \<^verbatim>\<open>np.zeros(n)\<close> is the array of
  \<open>n\<close> zeros, and the in-place sum \<^verbatim>\<open>a += b\<close> into a one-dimensional array \<open>a\<close> broadcasts a
  scalar or a one-element array and raises when the shapes do not fit.
\<close>

datatype arr = Scalar real | Vec "real list"

definition np_zeros :: "nat \<Rightarrow> real list" where
  "np_zeros n = replicate n 0"

fun np_iadd :: "real list \<Rightarrow> arr \<Rightarrow> error + real list" where
  "np_iadd xs (Scalar c) = Inr (map (\<lambda>x. x + c) xs)"
| "np_iadd xs (Vec ys) =
     (if length ys = length xs then Inr (map2 (+) xs ys)
      else if length ys = 1 then Inr (map (\<lambda>x. x + hd ys) xs)
      else Inl ValueError)"

section \<open>The timing model\<close>

text \<open>
  A parameter object (class \<^verbatim>\<open>Parameter\<close>, not in the repository's sources here) is kept with
  the fields the timing model reads. An attribute of the model is a parameter or some other
  plain value such as the string \<^verbatim>\<open>BinaryModelName\<close>.
\<close>

datatype pvalue = NoValue | Num real | Txt string

record parameter =
  name :: string
  pval :: pvalue
  frozen :: bool
  aliases :: "string list"
  is_prefix :: bool
  prefix :: string
  index :: nat

datatype pyattr = Param parameter | Str string

text \<open>
  Component functions are black boxes to the engine: given the observations (and, for a
  phase function, the total delay) they return a value or raise. Every call of one is
  recorded in a call log, the field \<open>trace\<close>, so that the order of the calls can be stated;
  \<open>Ran f\<close> records that the body of the method \<open>f\<close> started to run, and \<open>ParfileLine l\<close>
  that \<^verbatim>\<open>read_parfile\<close> starts to match the line \<open>l\<close> against the parameters.
\<close>

datatype 'o event =
    Ran string
  | DelayFn string nat "'o list"
  | PhaseFn nat "'o list" "real list"
  | DerivFn string "'o list"
  | ParfileLine string

record ('v, 'o) model_state = "'v store" +
  params :: "string list"
  prefix_params :: "string list"
  attrs :: "string \<rightharpoonup> pyattr"
  trace :: "'o event list"
  warnings :: "string list"

definition record_event ::
  "'o event \<Rightarrow> ('v, 'o, 'z) model_state_scheme \<Rightarrow> ('v, 'o, 'z) model_state_scheme" where
  "record_event ev s = s\<lparr>trace := trace s @ [ev]\<rparr>"

text \<open>
  The registries of a model. \<open>delay_funcs\<close> is the dictionary of \<^verbatim>\<open>__init__\<close>, from a level
  to the list of its delay functions, as an association list in the order in which the
  dictionary iterates its keys. \<open>d_phase_d\<close> and \<open>d_delay_d\<close> give the attributes named
  \<^verbatim>\<open>d_phase_d_<name>\<close> and \<^verbatim>\<open>d_delay_d_<name>\<close> that \<^verbatim>\<open>hasattr\<close> finds on the model.
  The class \<^verbatim>\<open>Phase\<close> is not in the sources here: its two constructors and its addition are
  fields of the model, and so is the reading of its fractional part (\<^verbatim>\<open>phase[1]\<close>).
\<close>

datatype phys_unit = Dimensionless | Named string | Per phys_unit phys_unit

record quantity =
  data :: arr
  qunit :: phys_unit

record ('o, 'p) components =
  delay_funcs :: "(string \<times> ('o list \<Rightarrow> error + arr) list) list"
  phase_funcs :: "('o list \<Rightarrow> real list \<Rightarrow> error + arr) list"
  d_phase_d :: "string \<rightharpoonup> ('o list \<Rightarrow> error + quantity)"
  d_delay_d :: "string \<rightharpoonup> ('o list \<Rightarrow> error + quantity)"
  Phase2 :: "real list \<Rightarrow> real list \<Rightarrow> 'p"
  Phase1 :: "arr \<Rightarrow> 'p"
  phase_add :: "'p \<Rightarrow> 'p \<Rightarrow> 'p"
  phase_frac :: "'p \<Rightarrow> real list"

subsection \<open>delay\<close>

fun run_delay_funcs ::
  "string \<Rightarrow> ('o list \<Rightarrow> error + arr) list \<Rightarrow> nat \<Rightarrow> 'o list \<Rightarrow> real list \<Rightarrow>
   (('v, 'o, 'z) model_state_scheme, real list) comp" where
  "run_delay_funcs dlevel [] i toas delay s = (Inr delay, s)"
| "run_delay_funcs dlevel (df # dfs) i toas delay s =
     (let s1 = record_event (DelayFn dlevel i toas) s in
      case df toas of
        Inl e \<Rightarrow> (Inl e, s1)
      | Inr x \<Rightarrow>
          (case np_iadd delay x of
             Inl e \<Rightarrow> (Inl e, s1)
           | Inr delay' \<Rightarrow> run_delay_funcs dlevel dfs (Suc i) toas delay' s1))"

fun run_delay_levels ::
  "('o, 'p) components \<Rightarrow> string list \<Rightarrow> 'o list \<Rightarrow> real list \<Rightarrow>
   (('v, 'o, 'z) model_state_scheme, real list) comp" where
  "run_delay_levels m [] toas delay s = (Inr delay, s)"
| "run_delay_levels m (dlevel # ks) toas delay s =
     (case map_of (delay_funcs m) dlevel of
        None \<Rightarrow> (Inl KeyError, s)
      | Some dfs \<Rightarrow>
          (case run_delay_funcs dlevel dfs 0 toas delay s of
             (Inl e, s1) \<Rightarrow> (Inl e, s1)
           | (Inr delay', s1) \<Rightarrow> run_delay_levels m ks toas delay' s1))"

definition delay_body ::
  "('o, 'p) components \<Rightarrow> 'o list \<Rightarrow> (('v, 'o, 'z) model_state_scheme, real list) comp" where
  "delay_body m toas s =
     run_delay_levels m (map fst (delay_funcs m)) toas (np_zeros (length toas))
       (record_event (Ran ''delay'') s)"

definition delay ::
  "('o, 'p) components \<Rightarrow> 'o list \<Rightarrow> (('v, 'o, 'z) model_state_scheme, real list) comp" where
  "delay m toas = use_cache (delay_body m toas)"

subsection \<open>phase\<close>

fun run_phase_funcs ::
  "('o, 'p) components \<Rightarrow> ('o list \<Rightarrow> real list \<Rightarrow> error + arr) list \<Rightarrow> nat \<Rightarrow> 'o list \<Rightarrow>
   real list \<Rightarrow> 'p \<Rightarrow> (('v, 'o, 'z) model_state_scheme, 'p) comp" where
  "run_phase_funcs m [] i toas d ph s = (Inr ph, s)"
| "run_phase_funcs m (pf # pfs) i toas d ph s =
     (let s1 = record_event (PhaseFn i toas d) s in
      case pf toas d of
        Inl e \<Rightarrow> (Inl e, s1)
      | Inr x \<Rightarrow> run_phase_funcs m pfs (Suc i) toas d (phase_add m ph (Phase1 m x)) s1)"

definition phase_body ::
  "('o, 'p) components \<Rightarrow> 'o list \<Rightarrow> (('v, 'o, 'z) model_state_scheme, 'p) comp" where
  "phase_body m toas s =
     (case delay m toas (record_event (Ran ''phase'') s) of
        (Inl e, s1) \<Rightarrow> (Inl e, s1)
      | (Inr d, s1) \<Rightarrow>
          run_phase_funcs m (phase_funcs m) 0 toas d
            (Phase2 m (np_zeros (length toas)) (np_zeros (length toas))) s1)"

definition phase ::
  "('o, 'p) components \<Rightarrow> 'o list \<Rightarrow> (('v, 'o, 'z) model_state_scheme, 'p) comp" where
  "phase m toas = use_cache (phase_body m toas)"

subsection \<open>Derivatives\<close>

text \<open>
  \<^verbatim>\<open>d_phase_d_param\<close> returns what the analytic function returns (a quantity) or what
  \<^verbatim>\<open>d_phase_d_param_num\<close> returns, which is the float \<^verbatim>\<open>0.0\<close>.
\<close>

datatype pyval = PyFloat real | PyQuantity quantity

definition d_phase_d_param_num ::
  "('o, 'p) components \<Rightarrow> 'o list \<Rightarrow> string \<Rightarrow> (('v, 'o, 'z) model_state_scheme, pyval) comp" where
  "d_phase_d_param_num m toas param =
     use_cache (\<lambda>s. (Inr (PyFloat 0.0), record_event (Ran ''d_phase_d_param_num'') s))"

definition d_phase_d_param_body ::
  "('o, 'p) components \<Rightarrow> 'o list \<Rightarrow> string \<Rightarrow> (('v, 'o, 'z) model_state_scheme, pyval) comp" where
  "d_phase_d_param_body m toas param s =
     (let s0 = record_event (Ran ''d_phase_d_param'') s in
      case d_phase_d m param of
        Some f \<Rightarrow>
          (let s1 = record_event (DerivFn (''d_phase_d_'' @ param) toas) s0 in
           case f toas of
             Inl e \<Rightarrow> (Inl e, s1)
           | Inr q \<Rightarrow> (Inr (PyQuantity q), s1))
      | None \<Rightarrow> d_phase_d_param_num m toas param s0)"

definition d_phase_d_param ::
  "('o, 'p) components \<Rightarrow> 'o list \<Rightarrow> string \<Rightarrow> (('v, 'o, 'z) model_state_scheme, pyval) comp" where
  "d_phase_d_param m toas param = use_cache (d_phase_d_param_body m toas param)"

subsection \<open>The design matrix\<close>

text \<open>
  A two-dimensional array is kept by its shape and its columns, since \<^verbatim>\<open>designmatrix\<close>
  writes it a column at a time. \<^verbatim>\<open>M[:,ii] = v\<close> broadcasts a scalar or a one-element array
  down the column and raises when the lengths do not fit. Derivative functions return
  quantities, as the reading of \<^verbatim>\<open>q.unit\<close> requires. Dividing by a zero \<^verbatim>\<open>F0\<close> gives
  infinities in the numeric library and \<open>0\<close> here; nothing below looks at those entries.
\<close>

record ndarray2 =
  nrows :: nat
  ncols :: nat
  cols :: "real list list"

definition np_zeros2 :: "nat \<Rightarrow> nat \<Rightarrow> ndarray2" where
  "np_zeros2 n k = \<lparr>nrows = n, ncols = k, cols = replicate k (replicate n 0)\<rparr>"

fun set_column :: "ndarray2 \<Rightarrow> nat \<Rightarrow> arr \<Rightarrow> error + ndarray2" where
  "set_column M ii (Scalar c) =
     (if ncols M \<le> ii then Inl IndexError
      else Inr (M\<lparr>cols := (cols M)[ii := replicate (nrows M) c]\<rparr>))"
| "set_column M ii (Vec ys) =
     (if ncols M \<le> ii then Inl IndexError
      else if length ys = nrows M then Inr (M\<lparr>cols := (cols M)[ii := ys]\<rparr>)
      else if length ys = 1 then Inr (M\<lparr>cols := (cols M)[ii := replicate (nrows M) (hd ys)]\<rparr>)
      else Inl ValueError)"

definition quantity_div :: "quantity \<Rightarrow> real \<Rightarrow> quantity" where
  "quantity_div q F0 =
     \<lparr>data = (case data q of Scalar c \<Rightarrow> Scalar (c / F0) | Vec xs \<Rightarrow> Vec (map (\<lambda>x. x / F0) xs)),
      qunit = Per (qunit q) (Per Dimensionless (Named ''s''))\<rparr>"

text \<open>
  The comprehension \<^verbatim>\<open>[par for par in self.params if incfrozen or not getattr(self, par).frozen]\<close>:
  the attribute is read only when \<^verbatim>\<open>incfrozen\<close> is false, and reading it fails when the
  model has no parameter object under that name.
\<close>

fun select_params :: "bool \<Rightarrow> (string \<rightharpoonup> pyattr) \<Rightarrow> string list \<Rightarrow> error + string list" where
  "select_params incfrozen ats [] = Inr []"
| "select_params incfrozen ats (par # ps) =
     (if incfrozen then
        (case select_params incfrozen ats ps of Inl e \<Rightarrow> Inl e | Inr r \<Rightarrow> Inr (par # r))
      else
        (case ats par of
           Some (Param p) \<Rightarrow>
             (case select_params incfrozen ats ps of
                Inl e \<Rightarrow> Inl e
              | Inr r \<Rightarrow> Inr (if \<not> frozen p then par # r else r))
         | _ \<Rightarrow> Inl AttributeError))"

definition F0_per_second :: "(string \<rightharpoonup> pyattr) \<Rightarrow> error + real" where
  "F0_per_second ats =
     (case ats ''F0'' of
        Some (Param p) \<Rightarrow> (case pval p of Num x \<Rightarrow> Inr x | _ \<Rightarrow> Inl TypeError)
      | _ \<Rightarrow> Inl AttributeError)"

fun fill_columns ::
  "('o, 'p) components \<Rightarrow> real \<Rightarrow> 'o list \<Rightarrow> string list \<Rightarrow> nat \<Rightarrow> ndarray2 \<Rightarrow> phys_unit list \<Rightarrow>
   (('v, 'o, 'z) model_state_scheme, ndarray2 \<times> phys_unit list) comp" where
  "fill_columns m F0 toas [] ii M units s = (Inr (M, units), s)"
| "fill_columns m F0 toas (param # ps) ii M units s =
     (if param = ''Offset'' then
        (case set_column M ii (Scalar 1.0) of
           Inl e \<Rightarrow> (Inl e, s)
         | Inr M' \<Rightarrow> fill_columns m F0 toas ps (Suc ii) M' (units @ [Dimensionless]) s)
      else
        (case d_phase_d m param of
           Some f \<Rightarrow>
             (let s1 = record_event (DerivFn (''d_phase_d_'' @ param) toas) s in
              case f toas of
                Inl e \<Rightarrow> (Inl e, s1)
              | Inr q0 \<Rightarrow>
                  (let q = quantity_div q0 F0 in
                   case set_column M ii (data q) of
                     Inl e \<Rightarrow> (Inl e, s1)
                   | Inr M' \<Rightarrow> fill_columns m F0 toas ps (Suc ii) M' (units @ [qunit q]) s1))
         | None \<Rightarrow>
             (case d_delay_d m param of
                Some f \<Rightarrow>
                  (let s1 = record_event (DerivFn (''d_delay_d_'' @ param) toas) s in
                   case f toas of
                     Inl e \<Rightarrow> (Inl e, s1)
                   | Inr q \<Rightarrow>
                       (case set_column M ii (data q) of
                          Inl e \<Rightarrow> (Inl e, s1)
                        | Inr M' \<Rightarrow> fill_columns m F0 toas ps (Suc ii) M' (units @ [qunit q]) s1))
              | None \<Rightarrow> fill_columns m F0 toas ps (Suc ii) M units s)))"

definition designmatrix_body ::
  "('o, 'p) components \<Rightarrow> 'o list \<Rightarrow> bool \<Rightarrow> bool \<Rightarrow>
   (('v, 'o, 'z) model_state_scheme, ndarray2 \<times> string list \<times> phys_unit list) comp" where
  "designmatrix_body m toas incfrozen incoffset s =
     (let s0 = record_event (Ran ''designmatrix'') s in
      case select_params incfrozen (attrs s0) (params s0) of
        Inl e \<Rightarrow> (Inl e, s0)
      | Inr free \<Rightarrow>
          (let ps = (if incoffset then [''Offset''] else []) @ free in
           case F0_per_second (attrs s0) of
             Inl e \<Rightarrow> (Inl e, s0)
           | Inr F0 \<Rightarrow>
               (case delay m toas s0 of
                  (Inl e, s1) \<Rightarrow> (Inl e, s1)
                | (Inr d, s1) \<Rightarrow>
                    (case fill_columns m F0 toas ps 0 (np_zeros2 (length toas) (length ps)) [] s1 of
                       (Inl e, s2) \<Rightarrow> (Inl e, s2)
                     | (Inr (M, units), s2) \<Rightarrow> (Inr (M, ps, units), s2)))))"

definition designmatrix ::
  "('o, 'p) components \<Rightarrow> 'o list \<Rightarrow> bool \<Rightarrow> bool \<Rightarrow>
   (('v, 'o, 'z) model_state_scheme, ndarray2 \<times> string list \<times> phys_unit list) comp" where
  "designmatrix m toas incfrozen incoffset = use_cache (designmatrix_body m toas incfrozen incoffset)"

subsection \<open>is\_in\_parfile\<close>

text \<open>
  \<^verbatim>\<open>para_dict\<close> is a dictionary from the names found in a parfile to their values, kept as
  an association list. \<^verbatim>\<open>pNames_inModel = self.params\<close> binds a second name to the list
  object of the model, so the \<^verbatim>\<open>del\<close> that follows changes \<^verbatim>\<open>self.params\<close>; in the model
  the state is updated. \<^verbatim>\<open>list.index\<close> raises when the element is missing, and the bare
  \<^verbatim>\<open>except\<close> around the \<^verbatim>\<open>del\<close> swallows that.
\<close>

fun list_index :: "'a list \<Rightarrow> 'a \<Rightarrow> error + nat" where
  "list_index [] x = Inl ValueError"
| "list_index (y # ys) x =
     (if y = x then Inr 0
      else (case list_index ys x of Inl e \<Rightarrow> Inl e | Inr i \<Rightarrow> Inr (Suc i)))"

definition list_del :: "'a list \<Rightarrow> nat \<Rightarrow> 'a list" where
  "list_del xs i = take i xs @ drop (Suc i) xs"

text \<open>
  The comparison of \<^verbatim>\<open>BinaryModelName\<close> with \<^verbatim>\<open>para_dict['BINARY'][0]\<close> inside its
  \<^verbatim>\<open>try\<close>: \<open>None\<close> when anything in it raises (no such attribute, no such key, an empty
  value), so that the function goes on; otherwise the result to return.
\<close>

definition binary_check :: "(string \<times> string list) list \<Rightarrow> (string \<rightharpoonup> pyattr) \<Rightarrow> bool option" where
  "binary_check para_dict ats =
     (case ats ''BinaryModelName'' of
        None \<Rightarrow> None
      | Some b \<Rightarrow>
          (case map_of para_dict ''BINARY'' of
             None \<Rightarrow> None
           | Some [] \<Rightarrow> None
           | Some (v # vs) \<Rightarrow> Some (b = Str v)))"

fun check_aliases :: "string list \<Rightarrow> (string \<rightharpoonup> pyattr) \<Rightarrow> string list \<Rightarrow> error + bool" where
  "check_aliases pNames_inpar ats [] = Inr False"
| "check_aliases pNames_inpar ats (p # ps) =
     (case ats p of
        Some (Param par) \<Rightarrow>
          (if aliases par = [] then check_aliases pNames_inpar ats ps
           else if [a \<leftarrow> aliases par. a \<in> set pNames_inpar] \<noteq> [] then Inr True
           else check_aliases pNames_inpar ats ps)
      | _ \<Rightarrow> Inl AttributeError)"

definition is_in_parfile ::
  "(string \<times> string list) list \<Rightarrow> (('v, 'o, 'z) model_state_scheme, bool) comp" where
  "is_in_parfile para_dict s =
     (let pNames_inpar = map fst para_dict;
          s1 = (case list_index (params s) ''PSR'' of
                  Inl e \<Rightarrow> s
                | Inr i \<Rightarrow> s\<lparr>params := list_del (params s) i\<rparr>);
          pNames_inModel = params s1
      in if attrs s1 ''PLANET_SHAPIRO'' \<noteq> None then
           (if ''NO_SS_SHAPIRO'' \<in> set pNames_inpar then (Inr False, s1) else (Inr True, s1))
         else
           (case binary_check para_dict (attrs s1) of
              Some b \<Rightarrow> (Inr b, s1)
            | None \<Rightarrow>
                (if [x \<leftarrow> pNames_inModel. x \<in> set pNames_inpar] = [] then
                   (check_aliases pNames_inpar (attrs s1) pNames_inModel, s1)
                 else (Inr True, s1))))"

subsection \<open>read\_parfile\<close>






















text \<open>
  The free parameters of a model, in the order of \<^verbatim>\<open>params\<close>, and what it is for a derivative
  to be a vector with one entry for each observation.
\<close>

definition free_params :: "('v, 'o, 'z) model_state_scheme \<Rightarrow> string list" where
  "free_params s =
     [par \<leftarrow> params s. case attrs s par of Some (Param p) \<Rightarrow> \<not> frozen p | _ \<Rightarrow> False]"

definition per_observation :: "'o list \<Rightarrow> pyval \<Rightarrow> bool" where
  "per_observation toas v =
     (case v of
        PyQuantity q \<Rightarrow> (case data q of Vec xs \<Rightarrow> length xs = length toas | Scalar c \<Rightarrow> False)
      | PyFloat c \<Rightarrow> False)"

text \<open>
  What \<^verbatim>\<open>designmatrix\<close> needs of the derivative function it picks for a parameter: that it
  returns a quantity which fits a column of the matrix.
\<close>

definition column_fits :: "nat \<Rightarrow> arr \<Rightarrow> bool" where
  "column_fits n a = (case a of Scalar c \<Rightarrow> True | Vec ys \<Rightarrow> length ys = n \<or> length ys = 1)"

definition derivative_ok :: "('o, 'p) components \<Rightarrow> 'o list \<Rightarrow> string \<Rightarrow> bool" where
  "derivative_ok m toas par =
     (case d_phase_d m par of
        Some f \<Rightarrow> (case f toas of Inl e \<Rightarrow> False | Inr q \<Rightarrow> column_fits (length toas) (data q))
      | None \<Rightarrow>
          (case d_delay_d m par of
             Some f \<Rightarrow> (case f toas of Inl e \<Rightarrow> False | Inr q \<Rightarrow> column_fits (length toas) (data q))
           | None \<Rightarrow> True))"

subsection \<open>The consumer of phases in \<^verbatim>\<open>examples/event_optimize.py\<close>\<close>

text \<open>
  \<^verbatim>\<open>emcee_fitter.get_event_phases\<close> reads the fractional part of the model's phase for the
  fitter's observations and shifts the negative entries with \<^verbatim>\<open>np.where\<close>.
\<close>

definition get_event_phases ::
  "('o, 'p) components \<Rightarrow> 'o list \<Rightarrow> (('v, 'o, 'z) model_state_scheme, real list) comp" where
  "get_event_phases m toas s =
     (case phase m toas s of
        (Inl e, s1) \<Rightarrow> (Inl e, s1)
      | (Inr ph, s1) \<Rightarrow> (Inr (map (\<lambda>x. if x < 0.0 then x + 1.0 else x) (phase_frac m ph)), s1))"

subsection \<open>A freshly built model\<close>

text \<open>
  \<^verbatim>\<open>TimingModel.__init__\<close>: no parameter but \<^verbatim>\<open>PSR\<close>, two empty delay levels, no phase
  function, \<^verbatim>\<open>cache = None\<close>. The defaults of \<^verbatim>\<open>strParameter\<close> are not in the sources here;
  the parameter is taken as frozen and without a value. The \<^verbatim>\<open>Phase\<close> used in the examples
  keeps an integer and a fractional array and adds them entry by entry, moving a
  fractional part outside \<open>[-1, 1)\<close> into the integer part.
\<close>

definition TimingModel_init :: "('v, 'o) model_state" where
  "TimingModel_init =
     \<lparr>cache = Inactive, heap = (\<lambda>a. Map.empty), fresh = 0,
      params = [''PSR''], prefix_params = [],
      attrs = [''PSR'' \<mapsto> Param \<lparr>name = ''PSR'', pval = NoValue, frozen = True,
                 aliases = [''PSRJ'', ''PSRB''], is_prefix = False, prefix = [], index = 0\<rparr>],
      trace = [], warnings = []\<rparr>"

fun carry :: "real \<times> real \<Rightarrow> real \<times> real" where
  "carry (i, f) = (if 1 \<le> f then (i + 1, f - 1) else if f < -1 then (i - 1, f + 1) else (i, f))"

definition example_Phase1 :: "arr \<Rightarrow> (real \<times> real) list" where
  "example_Phase1 x = (case x of Scalar c \<Rightarrow> [carry (0, c)] | Vec xs \<Rightarrow> map (\<lambda>c. carry (0, c)) xs)"

definition example_phase_add :: "(real \<times> real) list \<Rightarrow> (real \<times> real) list \<Rightarrow> (real \<times> real) list" where
  "example_phase_add p q =
     (if length q = 1 then map (\<lambda>(i, f). carry (i + fst (hd q), f + snd (hd q))) p
      else map2 (\<lambda>(i, f) (j, g). carry (i + j, f + g)) p q)"

definition TimingModel_components :: "('o, (real \<times> real) list) components" where
  "TimingModel_components =
     \<lparr>delay_funcs = [(''L1'', []), (''L2'', [])], phase_funcs = [],
      d_phase_d = Map.empty, d_delay_d = Map.empty,
      Phase2 = (\<lambda>is fs. map carry (zip is fs)), Phase1 = example_Phase1,
      phase_add = example_phase_add, phase_frac = map snd\<rparr>"

text \<open>
  A small model for the examples: one delay function at each level and two phase functions.
\<close>

definition example_model :: "(nat, (real \<times> real) list) components" where
  "example_model =
     TimingModel_components
       \<lparr>delay_funcs := [(''L1'', [\<lambda>toas. Inr (Scalar 1)]), (''L2'', [\<lambda>toas. Inr (Vec (map (\<lambda>t. 2) toas))])],
        phase_funcs := [\<lambda>toas d. Inr (Vec (map (\<lambda>x. x - 3) d)), \<lambda>toas d. Inr (Scalar (- (1 / 4)))],
        d_phase_d := [''F0'' \<mapsto> (\<lambda>toas. Inr \<lparr>data = Vec (map (\<lambda>t. 200) toas), qunit = Named ''s''\<rparr>)]\<rparr>"

text \<open>
  Its state: besides \<^verbatim>\<open>PSR\<close> the free parameters \<^verbatim>\<open>F0\<close>, for which the model has an analytic
  phase derivative, and \<^verbatim>\<open>DM\<close>, for which it has no derivative function of either kind.
\<close>

definition example_state :: "(nat, nat) model_state" where
  "example_state =
     TimingModel_init
       \<lparr>params := [''PSR'', ''F0'', ''DM''],
        attrs :=
          (attrs (TimingModel_init :: (nat, nat) model_state))
            (''F0'' \<mapsto> Param \<lparr>name = ''F0'', pval = Num 100, frozen = False,
                 aliases = [], is_prefix = False, prefix = [], index = 0\<rparr>,
             ''DM'' \<mapsto> Param \<lparr>name = ''DM'', pval = Num 10, frozen = False,
                 aliases = [], is_prefix = False, prefix = [], index = 0\<rparr>)\<rparr>"



section \<open>Properties of the cache\<close>

lemma use_cache_teardown_on_return:
  "cache s = Inactive \<Longrightarrow> use_cache function s = (Inr r, s') \<Longrightarrow> cache s' = Inactive"
  by (auto simp: use_cache_def split: prod.splits sum.splits)

lemma use_cache_error_passes_state:
  "cache s = Inactive \<Longrightarrow> function (enter_scope s) = (Inl e, s') \<Longrightarrow>
   use_cache function s = (Inl e, s')"
  by (simp add: use_cache_def)

lemma use_cache_fst:
  "fst (use_cache f s) = fst (f (if cache s = Inactive then enter_scope s else s))"
  by (cases "cache s") (auto simp: use_cache_def split: prod.splits sum.splits)

text \<open>
  C1. The claim: when no scope is active on entry, the scope is torn down on every exit
  path of a method wrapped by \<^verbatim>\<open>use_cache\<close>, also when the wrapped computation raises.
  The wrapper resets the attribute only after the wrapped function has returned; there is
  no handler around the call. On a freshly built model whose only delay function raises,
  \<^verbatim>\<open>delay\<close> raises and leaves the scope it created in place.
\<close>

theorem use_cache_scope_survives_error:
  "delay (TimingModel_components\<lparr>delay_funcs := [(''L1'', [\<lambda>toas. Inl (Raised ''boom'')]), (''L2'', [])]\<rparr>)
     [7 :: nat] (TimingModel_init :: (nat, nat) model_state) =
   (Inl (Raised ''boom''),
    TimingModel_init\<lparr>cache := Active 0, fresh := 1, trace := [Ran ''delay'', DelayFn ''L1'' 0 [7]]\<rparr>)"
  by (simp add: delay_def use_cache_def TimingModel_init_def TimingModel_components_def
      enter_scope_def delay_body_def record_event_def np_zeros_def fun_upd_idem_iff)



text \<open>
  In this code no method of the timing model carries \<^verbatim>\<open>cache_result\<close>: \<^verbatim>\<open>phase\<close>,
  \<^verbatim>\<open>delay\<close> and the others carry \<^verbatim>\<open>use_cache\<close> only, so within an active scope a second
  call of \<^verbatim>\<open>delay\<close> runs its body and the delay functions again.
\<close>

lemma delay_recomputed_in_scope:
  "trace (snd (delay example_model [7]
      (snd (delay example_model [7] (enter_scope (TimingModel_init :: (nat, nat) model_state)))))) =
   [Ran ''delay'', DelayFn ''L1'' 0 [7], DelayFn ''L2'' 0 [7],
    Ran ''delay'', DelayFn ''L1'' 0 [7], DelayFn ''L2'' 0 [7]]"
  by (simp add: delay_def use_cache_def delay_body_def example_model_def
      TimingModel_components_def TimingModel_init_def enter_scope_def record_event_def
      np_zeros_def)

section \<open>The delay and phase pipelines\<close>

lemma run_delay_funcs_state:
  "run_delay_funcs lvl dfs i toas d s = (r, s') \<Longrightarrow>
   \<exists>k\<le>length dfs. s' = s\<lparr>trace := trace s @ map (\<lambda>j. DelayFn lvl j toas) [i..<i + k]\<rparr> \<and>
     (\<forall>x. r = Inr x \<longrightarrow> k = length dfs) \<and> 0 < k + (if dfs = [] then 1 else 0)"
proof (induction dfs arbitrary: i d s)
  case Nil
  then show ?case by auto
next
  case (Cons df dfs)
  let ?s1 = "record_event (DelayFn lvl i toas) s"
  show ?case
  proof (cases "df toas")
    case (Inl e)
    with Cons.prems have "s' = ?s1" "r = Inl e" by (simp_all add: Let_def)
    then show ?thesis
      by (intro exI[of _ 1]) (simp add: record_event_def)
  next
    case (Inr x)
    show ?thesis
    proof (cases "np_iadd d x")
      case (Inl e)
      with Cons.prems Inr have "s' = ?s1" "r = Inl e" by (simp_all add: Let_def)
      then show ?thesis
        by (intro exI[of _ 1]) (simp add: record_event_def)
    next
      case r2: (Inr d')
      with Cons.prems Inr have "run_delay_funcs lvl dfs (Suc i) toas d' ?s1 = (r, s')"
        by (simp add: Let_def)
      from Cons.IH[OF this] obtain k where k: "k \<le> length dfs"
        "s' = ?s1\<lparr>trace := trace ?s1 @ map (\<lambda>j. DelayFn lvl j toas) [Suc i..<Suc i + k]\<rparr>"
        "\<forall>x. r = Inr x \<longrightarrow> k = length dfs" by blast
      show ?thesis
        using k by (intro exI[of _ "Suc k"]) (simp add: record_event_def upt_conv_Cons)
    qed
  qed
qed

lemma run_phase_funcs_ok:
  "run_phase_funcs m pfs i toas d ph s = (Inr ph', s') \<Longrightarrow>
   \<exists>xs. map (\<lambda>pf. pf toas d) pfs = map Inr xs \<and>
        ph' = foldl (phase_add m) ph (map (Phase1 m) xs) \<and>
        s' = s\<lparr>trace := trace s @ map (\<lambda>j. PhaseFn j toas d) [i..<i + length pfs]\<rparr>"
proof (induction pfs arbitrary: i ph s)
  case Nil
  then show ?case by simp
next
  case (Cons pf pfs)
  let ?s1 = "record_event (PhaseFn i toas d) s"
  from Cons.prems obtain x where x: "pf toas d = Inr x"
    by (cases "pf toas d") (simp_all add: Let_def)
  with Cons.prems have "run_phase_funcs m pfs (Suc i) toas d (phase_add m ph (Phase1 m x)) ?s1 = (Inr ph', s')"
    by (simp add: Let_def)
  from Cons.IH[OF this] obtain xs where xs: "map (\<lambda>pf. pf toas d) pfs = map Inr xs"
    "ph' = foldl (phase_add m) (phase_add m ph (Phase1 m x)) (map (Phase1 m) xs)"
    "s' = ?s1\<lparr>trace := trace ?s1 @ map (\<lambda>j. PhaseFn j toas d) [Suc i..<Suc i + length pfs]\<rparr>"
    by blast
  show ?case
    using xs x by (intro exI[of _ "x # xs"]) (simp add: record_event_def upt_conv_Cons del: upt_Suc)
qed


lemma run_delay_funcs_value:
  "fst (run_delay_funcs lvl dfs i toas d s) = fst (run_delay_funcs lvl dfs i' toas d s')"
  by (induction dfs arbitrary: i i' d s s') (auto simp: Let_def split: sum.splits)

lemma run_delay_levels_value:
  "fst (run_delay_levels m ks toas d s) = fst (run_delay_levels m ks toas d s')"
proof (induction ks arbitrary: d s s')
  case Nil
  show ?case by simp
next
  case (Cons k ks)
  show ?case
  proof (cases "map_of (delay_funcs m) k")
    case None
    then show ?thesis by simp
  next
    case (Some dfs)
    obtain r s1 where a: "run_delay_funcs k dfs 0 toas d s = (r, s1)" by fastforce
    obtain r' s1' where b: "run_delay_funcs k dfs 0 toas d s' = (r', s1')" by fastforce
    have "r = r'" using run_delay_funcs_value[of k dfs 0 toas d s 0 s'] a b by simp
    then show ?thesis using Some a b Cons.IH[of _ s1 s1'] by (auto split: sum.splits)
  qed
qed

lemma run_delay_levels_state:
  "run_delay_levels m ks toas d s = (r, s') \<Longrightarrow>
   \<exists>evs. s' = s\<lparr>trace := trace s @ evs\<rparr> \<and> (\<forall>e\<in>set evs. \<exists>l i. e = DelayFn l i toas)"
proof (induction ks arbitrary: d s)
  case Nil
  then show ?case by (intro exI[of _ "[]"]) simp
next
  case (Cons k ks)
  show ?case
  proof (cases "map_of (delay_funcs m) k")
    case None
    with Cons.prems show ?thesis by (intro exI[of _ "[]"]) simp
  next
    case (Some dfs)
    obtain r1 s1 where a: "run_delay_funcs k dfs 0 toas d s = (r1, s1)" by fastforce
    from run_delay_funcs_state[OF a] obtain n where
      s1: "s1 = s\<lparr>trace := trace s @ map (\<lambda>j. DelayFn k j toas) [0..<0 + n]\<rparr>" by blast
    show ?thesis
    proof (cases r1)
      case (Inl e)
      with Cons.prems Some a have "s' = s1" by simp
      with s1 show ?thesis
        by (intro exI[of _ "map (\<lambda>j. DelayFn k j toas) [0..<0 + n]"]) auto
    next
      case (Inr d')
      with Cons.prems Some a have "run_delay_levels m ks toas d' s1 = (r, s')" by simp
      from Cons.IH[OF this] obtain evs where
        evs: "s' = s1\<lparr>trace := trace s1 @ evs\<rparr>" "\<forall>e\<in>set evs. \<exists>l i. e = DelayFn l i toas"
        by blast
      show ?thesis
        using evs s1 by (intro exI[of _ "map (\<lambda>j. DelayFn k j toas) [0..<0 + n] @ evs"]) auto
    qed
  qed
qed

lemma delay_body_state:
  "delay_body m toas s = (r, s') \<Longrightarrow>
   \<exists>evs. s' = s\<lparr>trace := trace s @ Ran ''delay'' # evs\<rparr> \<and>
     (\<forall>e\<in>set evs. \<exists>l i. e = DelayFn l i toas)"
  unfolding delay_body_def
  by (drule run_delay_levels_state) (auto simp: record_event_def)

lemma delay_value:
  "fst (delay m toas s) = fst (delay_body m toas s')"
proof -
  have "fst (delay m toas s) = fst (delay_body m toas (if cache s = Inactive then enter_scope s else s))"
    by (auto simp: delay_def use_cache_def split: attr.splits prod.splits sum.splits)
  moreover have "fst (delay_body m toas (enter_scope s)) = fst (delay_body m toas s')"
    unfolding delay_body_def by (rule run_delay_levels_value)
  moreover have "fst (delay_body m toas s) = fst (delay_body m toas s')"
    unfolding delay_body_def by (rule run_delay_levels_value)
  ultimately show ?thesis by simp
qed

lemma delay_in_scope:
  "cache s \<noteq> Inactive \<Longrightarrow> delay m toas s = delay_body m toas s"
  by (auto simp: delay_def use_cache_def split: attr.splits)

lemma phase_body_ok:
  assumes "phase_body m toas s = (Inr ph, s')" "cache s \<noteq> Inactive"
  shows "\<exists>d evs xs.
      fst (delay m toas s) = Inr d \<and>
      (\<forall>e\<in>set evs. \<exists>l i. e = DelayFn l i toas) \<and>
      s' = s\<lparr>trace := trace s @ [Ran ''phase'', Ran ''delay''] @ evs @
              map (\<lambda>i. PhaseFn i toas d) [0..<length (phase_funcs m)]\<rparr> \<and>
      map (\<lambda>pf. pf toas d) (phase_funcs m) = map Inr xs \<and>
      ph = foldl (phase_add m) (Phase2 m (np_zeros (length toas)) (np_zeros (length toas)))
             (map (Phase1 m) xs)"
proof -
  let ?s0 = "record_event (Ran ''phase'') s"
  have c0: "cache ?s0 \<noteq> Inactive" using assms(2) by (simp add: record_event_def)
  obtain r s1 where d: "delay_body m toas ?s0 = (r, s1)" by fastforce
  with assms(1) c0 obtain dv where r: "r = Inr dv"
    by (cases r) (auto simp: phase_body_def delay_in_scope)
  from delay_body_state[OF d] obtain evs where
    evs: "s1 = ?s0\<lparr>trace := trace ?s0 @ Ran ''delay'' # evs\<rparr>"
      "\<forall>e\<in>set evs. \<exists>l i. e = DelayFn l i toas" by blast
  have run: "run_phase_funcs m (phase_funcs m) 0 toas dv
      (Phase2 m (np_zeros (length toas)) (np_zeros (length toas))) s1 = (Inr ph, s')"
    using assms(1) c0 d r by (simp add: phase_body_def delay_in_scope)
  from run_phase_funcs_ok[OF run] obtain xs where
    xs: "map (\<lambda>pf. pf toas dv) (phase_funcs m) = map Inr xs"
      "ph = foldl (phase_add m) (Phase2 m (np_zeros (length toas)) (np_zeros (length toas)))
             (map (Phase1 m) xs)"
      "s' = s1\<lparr>trace := trace s1 @ map (\<lambda>j. PhaseFn j toas dv) [0..<0 + length (phase_funcs m)]\<rparr>"
    by blast
  have v: "fst (delay m toas s) = Inr dv"
    using delay_value[of m toas s ?s0] d r by simp
  show ?thesis
    using v evs xs by (intro exI[of _ dv] exI[of _ evs] exI[of _ xs]) (simp add: record_event_def)
qed

lemma phase_returned:
  assumes "phase m toas s = (Inr ph, s')"
  shows "\<exists>d evs xs.
      fst (delay m toas s) = Inr d \<and>
      (\<forall>e\<in>set evs. \<exists>l i. e = DelayFn l i toas) \<and>
      trace s' = trace s @ [Ran ''phase'', Ran ''delay''] @ evs @
              map (\<lambda>i. PhaseFn i toas d) [0..<length (phase_funcs m)] \<and>
      map (\<lambda>pf. pf toas d) (phase_funcs m) = map Inr xs \<and>
      ph = foldl (phase_add m) (Phase2 m (np_zeros (length toas)) (np_zeros (length toas)))
             (map (Phase1 m) xs)"
proof (cases "cache s = Inactive")
  case True
  obtain r s1 where b: "phase_body m toas (enter_scope s) = (r, s1)" by fastforce
  with assms True have r: "r = Inr ph" and s': "s' = s1\<lparr>cache := Inactive\<rparr>"
    by (auto simp: phase_def use_cache_def split: sum.splits)
  have c: "cache (enter_scope s) \<noteq> Inactive" by (simp add: enter_scope_def)
  from phase_body_ok[OF b[unfolded r] c] obtain d evs xs where
    k: "fst (delay m toas (enter_scope s)) = Inr d"
      "\<forall>e\<in>set evs. \<exists>l i. e = DelayFn l i toas"
      "s1 = (enter_scope s)\<lparr>trace := trace (enter_scope s) @ [Ran ''phase'', Ran ''delay''] @ evs @
              map (\<lambda>i. PhaseFn i toas d) [0..<length (phase_funcs m)]\<rparr>"
      "map (\<lambda>pf. pf toas d) (phase_funcs m) = map Inr xs"
      "ph = foldl (phase_add m) (Phase2 m (np_zeros (length toas)) (np_zeros (length toas)))
             (map (Phase1 m) xs)" by blast
  have "fst (delay m toas s) = Inr d"
    using k(1) delay_value[of m toas s s] delay_value[of m toas "enter_scope s" s] by simp
  then show ?thesis
    using k s' by (intro exI[of _ d] exI[of _ evs] exI[of _ xs]) (simp add: enter_scope_def)
next
  case False
  with assms have b: "phase_body m toas s = (Inr ph, s')"
    by (auto simp: phase_def use_cache_def split: attr.splits)
  from phase_body_ok[OF b False] show ?thesis by fastforce
qed


lemma run_phase_funcs_returns:
  "list_all (\<lambda>pf. case pf toas d of Inl e \<Rightarrow> False | Inr x \<Rightarrow> True) pfs \<Longrightarrow>
   \<exists>ph' s'. run_phase_funcs m pfs i toas d ph (s :: ('v, 'o, 'z) model_state_scheme) = (Inr ph', s')"
proof (induction pfs arbitrary: i ph s)
  case Nil
  then show ?case by simp
next
  case (Cons pf pfs)
  then obtain x where x: "pf toas d = Inr x" by (cases "pf toas d") auto
  from Cons.IH[of "Suc i" "phase_add m ph (Phase1 m x)" "record_event (PhaseFn i toas d) s"]
    Cons.prems x
  show ?case by (simp add: Let_def)
qed

lemma phase_returns:
  assumes "fst (delay m toas s) = Inr d"
    "list_all (\<lambda>pf. case pf toas d of Inl e \<Rightarrow> False | Inr x \<Rightarrow> True) (phase_funcs m)"
  shows "\<exists>ph. fst (phase m toas s) = Inr ph"
proof -
  let ?s0 = "if cache s = Inactive then enter_scope s else s"
  let ?s1 = "record_event (Ran ''phase'') ?s0"
  obtain rd sd where dl: "delay m toas ?s1 = (rd, sd)" by fastforce
  have rd: "rd = Inr d"
    using dl assms(1) delay_value[of m toas s s] delay_value[of m toas ?s1 s] by simp
  from run_phase_funcs_returns[OF assms(2), of m 0
      "Phase2 m (np_zeros (length toas)) (np_zeros (length toas))" sd]
  obtain ph s' where "run_phase_funcs m (phase_funcs m) 0 toas d
      (Phase2 m (np_zeros (length toas)) (np_zeros (length toas))) sd = (Inr ph, s')" by blast
  with dl rd have "phase_body m toas ?s0 = (Inr ph, s')"
    by (simp add: phase_body_def)
  then have "fst (phase m toas s) = Inr ph"
    by (simp add: phase_def use_cache_fst)
  then show ?thesis by blast
qed

text \<open>
  C5. \<^verbatim>\<open>phase(toas)\<close> returns a value whenever \<^verbatim>\<open>delay(toas)\<close> does and every phase
  function returns one for that delay. When it returns a value, the body of \<^verbatim>\<open>delay\<close> has run once and returned
  the total delay \<open>d\<close> (the only \<open>Ran ''delay''\<close> in the calls added to the log, followed by
  calls of delay functions only), after it every registered phase function has been called
  once, in registration order, with the same observations and the same \<open>d\<close>, and the result
  is the left-to-right sum, by the addition of \<^verbatim>\<open>Phase\<close>, of the zero phase and the phases
  built from the values the phase functions returned.
\<close>

theorem phase_pipeline:
  "(phase m toas s = (Inr ph, s') \<longrightarrow>
      (\<exists>d evs xs.
         fst (delay m toas s) = Inr d \<and>
         (\<forall>e\<in>set evs. \<exists>l i. e = DelayFn l i toas) \<and>
         trace s' = trace s @ [Ran ''phase'', Ran ''delay''] @ evs @
                 map (\<lambda>i. PhaseFn i toas d) [0..<length (phase_funcs m)] \<and>
         map (\<lambda>pf. pf toas d) (phase_funcs m) = map Inr xs \<and>
         ph = foldl (phase_add m) (Phase2 m (np_zeros (length toas)) (np_zeros (length toas)))
                (map (Phase1 m) xs))) \<and>
   (fst (delay m toas s) = Inr d' \<and>
    list_all (\<lambda>pf. case pf toas d' of Inl e \<Rightarrow> False | Inr x \<Rightarrow> True) (phase_funcs m) \<longrightarrow>
      (\<exists>ph. fst (phase m toas s) = Inr ph))"
proof (intro conjI impI)
  assume "phase m toas s = (Inr ph, s')"
  then show "\<exists>d evs xs.
         fst (delay m toas s) = Inr d \<and>
         (\<forall>e\<in>set evs. \<exists>l i. e = DelayFn l i toas) \<and>
         trace s' = trace s @ [Ran ''phase'', Ran ''delay''] @ evs @
                 map (\<lambda>i. PhaseFn i toas d) [0..<length (phase_funcs m)] \<and>
         map (\<lambda>pf. pf toas d) (phase_funcs m) = map Inr xs \<and>
         ph = foldl (phase_add m) (Phase2 m (np_zeros (length toas)) (np_zeros (length toas)))
                (map (Phase1 m) xs)"
    by (rule phase_returned)
next
  assume "fst (delay m toas s) = Inr d' \<and>
    list_all (\<lambda>pf. case pf toas d' of Inl e \<Rightarrow> False | Inr x \<Rightarrow> True) (phase_funcs m)"
  then show "\<exists>ph. fst (phase m toas s) = Inr ph"
    using phase_returns by blast
qed

theorem phase_pipeline_witness:
  "phase example_model [7 :: nat] (TimingModel_init :: (nat, nat) model_state) =
     (Inr [(0, - (1 / 4))],
      TimingModel_init\<lparr>fresh := 1, trace := [Ran ''phase'', Ran ''delay'', DelayFn ''L1'' 0 [7 :: nat],
        DelayFn ''L2'' 0 [7 :: nat], PhaseFn 0 [7 :: nat] [3], PhaseFn 1 [7 :: nat] [3]]\<rparr>) \<and>
   (\<exists>d evs xs.
      fst (delay example_model [7 :: nat] (TimingModel_init :: (nat, nat) model_state)) = Inr d \<and>
      (\<forall>e\<in>set evs. \<exists>l i. e = DelayFn l i [7 :: nat]) \<and>
      [Ran ''phase'', Ran ''delay'', DelayFn ''L1'' 0 [7 :: nat], DelayFn ''L2'' 0 [7 :: nat],
         PhaseFn 0 [7 :: nat] [3], PhaseFn 1 [7 :: nat] [3]] =
        [Ran ''phase'', Ran ''delay''] @ evs @ map (\<lambda>i. PhaseFn i [7 :: nat] d) [0..<2] \<and>
      map (\<lambda>pf. pf [7 :: nat] d) (phase_funcs example_model) = map Inr xs \<and>
      [(0, - (1 / 4))] =
        foldl (phase_add example_model) (Phase2 example_model (np_zeros 1) (np_zeros 1))
          (map (Phase1 example_model) xs))"
proof -
  have h: "phase example_model [7 :: nat] (TimingModel_init :: (nat, nat) model_state) =
     (Inr [(0, - (1 / 4))],
      TimingModel_init\<lparr>fresh := 1, trace := [Ran ''phase'', Ran ''delay'', DelayFn ''L1'' 0 [7 :: nat],
        DelayFn ''L2'' 0 [7 :: nat], PhaseFn 0 [7 :: nat] [3], PhaseFn 1 [7 :: nat] [3]]\<rparr>)"
    by (simp add: phase_def phase_body_def delay_def use_cache_def delay_body_def
        example_model_def TimingModel_components_def TimingModel_init_def enter_scope_def
        record_event_def np_zeros_def example_Phase1_def example_phase_add_def fun_upd_idem_iff)
  have n: "length (phase_funcs example_model) = 2"
    by (simp add: example_model_def TimingModel_components_def)
  have t0: "trace (TimingModel_init :: (nat, nat) model_state) = []"
    by (simp add: TimingModel_init_def)
  show ?thesis
    using h phase_pipeline [THEN conjunct1, rule_format, OF h] by (simp add: t0 n)
qed

text \<open>
  The order of the delay functions. For a registry whose keys iterate as \<^verbatim>\<open>L1\<close>, \<^verbatim>\<open>L2\<close>,
  the calls of \<^verbatim>\<open>delay\<close> are those of the first level in registration order, then those
  of the second, and a function of the second level is called only after all of the first.
\<close>

lemma delay_L1_then_L2:
  assumes "delay_funcs m = [(''L1'', fs), (''L2'', gs)]" "delay m toas s = (r, s')"
  shows "\<exists>j k. j \<le> length fs \<and> k \<le> length gs \<and> (0 < k \<longrightarrow> j = length fs) \<and>
     trace s' = trace s @ Ran ''delay'' # map (\<lambda>i. DelayFn ''L1'' i toas) [0..<j] @
       map (\<lambda>i. DelayFn ''L2'' i toas) [0..<k]"
proof -
  let ?s0 = "if cache s = Inactive then enter_scope s else s"
  let ?s1 = "record_event (Ran ''delay'') ?s0"
  obtain r1 s2 where b: "delay_body m toas ?s0 = (r1, s2)" by fastforce
  have tr: "trace s' = trace s2"
    using assms(2) b by (auto simp: delay_def use_cache_def split: attr.splits sum.splits if_splits)
  have t1: "trace ?s1 = trace s @ [Ran ''delay'']"
    by (simp add: record_event_def enter_scope_def)
  obtain ra sa where a: "run_delay_funcs ''L1'' fs 0 toas (np_zeros (length toas)) ?s1 = (ra, sa)"
    by fastforce
  from run_delay_funcs_state[OF a] obtain j where j: "j \<le> length fs"
    "sa = ?s1\<lparr>trace := trace ?s1 @ map (\<lambda>i. DelayFn ''L1'' i toas) [0..<0 + j]\<rparr>"
    "\<forall>x. ra = Inr x \<longrightarrow> j = length fs" by blast
  show ?thesis
  proof (cases ra)
    case (Inl e)
    with a b assms(1) have "s2 = sa" by (simp add: delay_body_def)
    with tr j t1 show ?thesis by (intro exI[of _ j] exI[of _ 0]) simp
  next
    case (Inr d)
    obtain rb sb where c: "run_delay_funcs ''L2'' gs 0 toas d sa = (rb, sb)" by fastforce
    from run_delay_funcs_state[OF c] obtain k where k: "k \<le> length gs"
      "sb = sa\<lparr>trace := trace sa @ map (\<lambda>i. DelayFn ''L2'' i toas) [0..<0 + k]\<rparr>" by blast
    have "s2 = sb" using a b c Inr assms(1) by (auto simp: delay_body_def split: sum.splits)
    with tr j k t1 Inr show ?thesis by (intro exI[of _ j] exI[of _ k]) simp
  qed
qed

text \<open>
  C2. The claim: every \<^verbatim>\<open>L1\<close> delay function is summed into the total before any \<^verbatim>\<open>L2\<close>
  delay function runs, for every registry. \<^verbatim>\<open>delay\<close> walks \<^verbatim>\<open>self.delay_funcs.keys()\<close>, so
  the levels run in the order in which the dictionary iterates its keys, which the code does
  not fix. For the registry of the example model with its keys iterating as \<^verbatim>\<open>L2\<close>, \<^verbatim>\<open>L1\<close>,
  the \<^verbatim>\<open>L2\<close> function is called first.
\<close>

theorem delay_follows_key_order:
  "delay (example_model\<lparr>delay_funcs :=
       [(''L2'', [\<lambda>toas. Inr (Vec (map (\<lambda>t. 2) toas))]), (''L1'', [\<lambda>toas. Inr (Scalar 1)])]\<rparr>)
     [7 :: nat] (TimingModel_init :: (nat, nat) model_state) =
   (Inr [3],
    TimingModel_init\<lparr>fresh := 1,
      trace := [Ran ''delay'', DelayFn ''L2'' 0 [7], DelayFn ''L1'' 0 [7]]\<rparr>)"
  by (simp add: delay_def use_cache_def delay_body_def example_model_def
      TimingModel_components_def TimingModel_init_def enter_scope_def record_event_def
      np_zeros_def fun_upd_idem_iff)

lemma get_event_phases_returned:
  assumes "get_event_phases m toas s = (Inr out, s')"
  shows "\<exists>ph. phase m toas s = (Inr ph, s') \<and> length out = length (phase_frac m ph) \<and>
     (\<forall>i<length out.
        (phase_frac m ph ! i < 0 \<longrightarrow> out ! i = phase_frac m ph ! i + 1) \<and>
        (0 \<le> phase_frac m ph ! i \<longrightarrow> out ! i = phase_frac m ph ! i) \<and>
        (- 1 \<le> phase_frac m ph ! i \<longrightarrow> 0 \<le> out ! i))"
proof -
  obtain r s1 where p: "phase m toas s = (r, s1)" by fastforce
  with assms obtain ph where r: "r = Inr ph" "s1 = s'"
    and out: "out = map (\<lambda>x. if x < 0 then x + 1 else x) (phase_frac m ph)"
    by (cases r) (auto simp: get_event_phases_def)
  show ?thesis
    using p r out by (intro exI[of _ ph]) auto
qed

text \<open>
  C9. \<^verbatim>\<open>get_event_phases\<close> returns whenever the model's \<^verbatim>\<open>phase\<close> does. It reports
  one value for each entry of the
  fractional part of the model's phase: the fraction plus one where the fraction is
  negative, the fraction itself otherwise; the reported value is non-negative wherever the
  fraction is at least \<open>-1\<close>, which is the range of a fractional phase.
\<close>

theorem get_event_phases_nonneg:
  "(get_event_phases m toas s = (Inr out, s') \<longrightarrow>
      (\<exists>ph. phase m toas s = (Inr ph, s') \<and> length out = length (phase_frac m ph) \<and>
         (\<forall>i<length out.
            (phase_frac m ph ! i < 0 \<longrightarrow> out ! i = phase_frac m ph ! i + 1) \<and>
            (0 \<le> phase_frac m ph ! i \<longrightarrow> out ! i = phase_frac m ph ! i) \<and>
            (- 1 \<le> phase_frac m ph ! i \<longrightarrow> 0 \<le> out ! i)))) \<and>
   (fst (phase m toas s) = Inr ph' \<longrightarrow>
      fst (get_event_phases m toas s) =
        Inr (map (\<lambda>x. if x < 0 then x + 1 else x) (phase_frac m ph')))"
proof (intro conjI impI)
  assume "get_event_phases m toas s = (Inr out, s')"
  then show "\<exists>ph. phase m toas s = (Inr ph, s') \<and> length out = length (phase_frac m ph) \<and>
         (\<forall>i<length out.
            (phase_frac m ph ! i < 0 \<longrightarrow> out ! i = phase_frac m ph ! i + 1) \<and>
            (0 \<le> phase_frac m ph ! i \<longrightarrow> out ! i = phase_frac m ph ! i) \<and>
            (- 1 \<le> phase_frac m ph ! i \<longrightarrow> 0 \<le> out ! i))"
    by (rule get_event_phases_returned)
next
  assume "fst (phase m toas s) = Inr ph'"
  then show "fst (get_event_phases m toas s) =
      Inr (map (\<lambda>x. if x < 0 then x + 1 else x) (phase_frac m ph'))"
    by (cases "phase m toas s") (simp add: get_event_phases_def)
qed

theorem get_event_phases_nonneg_witness:
  "get_event_phases example_model [7 :: nat] (TimingModel_init :: (nat, nat) model_state) =
     (Inr [3 / 4],
      TimingModel_init\<lparr>fresh := 1, trace := [Ran ''phase'', Ran ''delay'', DelayFn ''L1'' 0 [7],
        DelayFn ''L2'' 0 [7], PhaseFn 0 [7] [3], PhaseFn 1 [7] [3]]\<rparr>) \<and>
   fst (phase example_model [7 :: nat] (TimingModel_init :: (nat, nat) model_state)) =
     Inr [(0, - (1 / 4))] \<and>
   phase_frac example_model [(0, - (1 / 4))] = [- (1 / 4)] \<and>
   - (1 / 4) < (0 :: real) \<and> - 1 \<le> (- (1 / 4) :: real) \<and> [3 / 4 :: real] ! 0 = - (1 / 4) + 1 \<and>
   0 \<le> [3 / 4 :: real] ! 0"
proof -
  have p: "phase example_model [7 :: nat] (TimingModel_init :: (nat, nat) model_state) =
     (Inr [(0, - (1 / 4))],
      TimingModel_init\<lparr>fresh := 1, trace := [Ran ''phase'', Ran ''delay'', DelayFn ''L1'' 0 [7],
        DelayFn ''L2'' 0 [7], PhaseFn 0 [7] [3], PhaseFn 1 [7] [3]]\<rparr>)"
    by (simp add: phase_def phase_body_def delay_def use_cache_def delay_body_def
        example_model_def TimingModel_components_def TimingModel_init_def enter_scope_def
        record_event_def np_zeros_def example_Phase1_def example_phase_add_def fun_upd_idem_iff)
  have f: "phase_frac example_model [(0, - (1 / 4))] = [- (1 / 4)]"
    by (simp add: example_model_def TimingModel_components_def)
  have h: "get_event_phases example_model [7 :: nat] (TimingModel_init :: (nat, nat) model_state) =
     (Inr [3 / 4],
      TimingModel_init\<lparr>fresh := 1, trace := [Ran ''phase'', Ran ''delay'', DelayFn ''L1'' 0 [7],
        DelayFn ''L2'' 0 [7], PhaseFn 0 [7] [3], PhaseFn 1 [7] [3]]\<rparr>)"
    by (simp add: get_event_phases_def p f)
  show ?thesis
    using h get_event_phases_nonneg [THEN conjunct1, rule_format, OF h] p f by simp
qed


section \<open>The design matrix and the derivatives\<close>

lemma set_column_ok:
  assumes "set_column M ii v = Inr M'"
  shows "ii < ncols M \<and> (\<exists>c. length c = nrows M \<and> M' = M\<lparr>cols := (cols M)[ii := c]\<rparr>)"
proof (cases v)
  case (Scalar x)
  with assms show ?thesis
    by (intro conjI exI[of _ "replicate (nrows M) x"]) (auto split: if_splits)
next
  case (Vec ys)
  show ?thesis
  proof (cases "length ys = nrows M")
    case True
    with assms Vec show ?thesis
      by (intro conjI exI[of _ ys]) (auto split: if_splits)
  next
    case False
    with assms Vec show ?thesis
      by (intro conjI exI[of _ "replicate (nrows M) (hd ys)"]) (auto split: if_splits)
  qed
qed

lemma set_column_scalar:
  "set_column M ii (Scalar x) = Inr M' \<Longrightarrow> M' = M\<lparr>cols := (cols M)[ii := replicate (nrows M) x]\<rparr>"
  by (auto split: if_splits)

lemma fill_columns_step:
  assumes "fill_columns m F0 toas (param # ps) ii M units s = (Inr (M', us'), s')"
  shows "\<exists>M1 u1 s1. fill_columns m F0 toas ps (Suc ii) M1 u1 s1 = (Inr (M', us'), s') \<and>
     (M1 = M \<or> (ii < ncols M \<and> (\<exists>c. length c = nrows M \<and> M1 = M\<lparr>cols := (cols M)[ii := c]\<rparr>))) \<and>
     (param = ''Offset'' \<longrightarrow> M1 = M\<lparr>cols := (cols M)[ii := replicate (nrows M) 1]\<rparr>) \<and>
     (param \<noteq> ''Offset'' \<and> d_phase_d m param = None \<and> d_delay_d m param = None \<longrightarrow> M1 = M)"
proof (cases "param = ''Offset''")
  case True
  with assms obtain M1 where a: "set_column M ii (Scalar 1) = Inr M1"
    "fill_columns m F0 toas ps (Suc ii) M1 (units @ [Dimensionless]) s = (Inr (M', us'), s')"
    by (auto split: sum.splits)
  from set_column_ok[OF a(1)] set_column_scalar[OF a(1)] a(2) True show ?thesis by blast
next
  case False
  show ?thesis
  proof (cases "d_phase_d m param")
    case (Some f)
    let ?s1 = "record_event (DerivFn (''d_phase_d_'' @ param) toas) s"
    from assms False Some obtain q0 M1 where a: "f toas = Inr q0"
      "set_column M ii (data (quantity_div q0 F0)) = Inr M1"
      "fill_columns m F0 toas ps (Suc ii) M1 (units @ [qunit (quantity_div q0 F0)]) ?s1 = (Inr (M', us'), s')"
      by (auto simp: Let_def split: sum.splits)
    from set_column_ok[OF a(2)] a(3) False Some show ?thesis
      by (intro exI[of _ M1] exI[of _ "units @ [qunit (quantity_div q0 F0)]"] exI[of _ ?s1]) simp
  next
    case None
    show ?thesis
    proof (cases "d_delay_d m param")
      case (Some f)
      let ?s1 = "record_event (DerivFn (''d_delay_d_'' @ param) toas) s"
      from assms False None Some obtain q M1 where a: "f toas = Inr q"
        "set_column M ii (data q) = Inr M1"
        "fill_columns m F0 toas ps (Suc ii) M1 (units @ [qunit q]) ?s1 = (Inr (M', us'), s')"
        by (auto simp: Let_def split: sum.splits)
      from set_column_ok[OF a(2)] a(3) False Some show ?thesis
        by (intro exI[of _ M1] exI[of _ "units @ [qunit q]"] exI[of _ ?s1]) simp
    next
      case n2: None
      from assms False None n2 have "fill_columns m F0 toas ps (Suc ii) M units s = (Inr (M', us'), s')"
        by simp
      then show ?thesis using False
        by (intro exI[of _ M] exI[of _ units] exI[of _ s]) simp
    qed
  qed
qed

lemma fill_columns_shape:
  "fill_columns m F0 toas ps ii M units s = (Inr (M', us'), s') \<Longrightarrow>
   nrows M' = nrows M \<and> ncols M' = ncols M \<and> length (cols M') = length (cols M) \<and>
   (\<forall>j<ii. cols M' ! j = cols M ! j) \<and>
   ((\<forall>c\<in>set (cols M). length c = nrows M) \<longrightarrow> (\<forall>c\<in>set (cols M'). length c = nrows M))"
proof (induction ps arbitrary: ii M units s)
  case Nil
  then show ?case by simp
next
  case (Cons param ps)
  from fill_columns_step[OF Cons.prems] obtain M1 u1 s1 where
    r: "fill_columns m F0 toas ps (Suc ii) M1 u1 s1 = (Inr (M', us'), s')" and
    m1: "M1 = M \<or> (ii < ncols M \<and> (\<exists>c. length c = nrows M \<and> M1 = M\<lparr>cols := (cols M)[ii := c]\<rparr>))"
    by blast
  note ih = Cons.IH[OF r]
  from m1 have sh: "nrows M1 = nrows M" "ncols M1 = ncols M" "length (cols M1) = length (cols M)"
    "\<forall>j<ii. cols M1 ! j = cols M ! j"
    by auto
  from m1 have len: "(\<forall>c\<in>set (cols M). length c = nrows M) \<longrightarrow> (\<forall>c\<in>set (cols M1). length c = nrows M)"
    using set_update_subset_insert[of "cols M" ii] by fastforce
  show ?case using ih sh len by auto
qed

lemma fill_columns_skip:
  "fill_columns m F0 toas ps ii M units s = (Inr (M', us'), s') \<Longrightarrow> k < length ps \<Longrightarrow>
   ps ! k \<noteq> ''Offset'' \<Longrightarrow> d_phase_d m (ps ! k) = None \<Longrightarrow> d_delay_d m (ps ! k) = None \<Longrightarrow>
   cols M' ! (ii + k) = cols M ! (ii + k)"
proof (induction ps arbitrary: ii M units s k)
  case Nil
  then show ?case by simp
next
  case (Cons param ps)
  from fill_columns_step[OF Cons.prems(1)] obtain M1 u1 s1 where
    r: "fill_columns m F0 toas ps (Suc ii) M1 u1 s1 = (Inr (M', us'), s')" and
    m1: "M1 = M \<or> (ii < ncols M \<and> (\<exists>c. length c = nrows M \<and> M1 = M\<lparr>cols := (cols M)[ii := c]\<rparr>))" and
    sk: "param \<noteq> ''Offset'' \<and> d_phase_d m param = None \<and> d_delay_d m param = None \<longrightarrow> M1 = M"
    by blast
  show ?case
  proof (cases k)
    case 0
    with Cons.prems sk have "M1 = M" by simp
    moreover from fill_columns_shape[OF r] have "cols M' ! ii = cols M1 ! ii" by simp
    ultimately show ?thesis using 0 by simp
  next
    case (Suc k')
    with Cons.prems have "cols M' ! (Suc ii + k') = cols M1 ! (Suc ii + k')"
      by (intro Cons.IH[OF r]) simp_all
    moreover from m1 have "cols M1 ! (Suc ii + k') = cols M ! (Suc ii + k')" by auto
    ultimately show ?thesis using Suc by simp
  qed
qed

lemma fill_columns_offset:
  assumes "fill_columns m F0 toas (''Offset'' # ps) ii M units s = (Inr (M', us'), s')"
    "ii < length (cols M)"
  shows "cols M' ! ii = replicate (nrows M) 1"
proof -
  from fill_columns_step[OF assms(1)] obtain M1 u1 s1 where
    r: "fill_columns m F0 toas ps (Suc ii) M1 u1 s1 = (Inr (M', us'), s')" and
    m1: "M1 = M\<lparr>cols := (cols M)[ii := replicate (nrows M) 1]\<rparr>" by blast
  from fill_columns_shape[OF r] have "cols M' ! ii = cols M1 ! ii" by simp
  with m1 assms(2) show ?thesis by simp
qed

lemma select_params_free:
  "select_params False ats ps = Inr r \<Longrightarrow>
   r = [par \<leftarrow> ps. case ats par of Some (Param p) \<Rightarrow> \<not> frozen p | _ \<Rightarrow> False]"
proof (induction ps arbitrary: r)
  case Nil
  then show ?case by simp
next
  case (Cons par ps)
  from Cons.prems obtain p r' where p: "ats par = Some (Param p)"
    "select_params False ats ps = Inr r'" "r = (if \<not> frozen p then par # r' else r')"
    by (auto split: option.splits pyattr.splits sum.splits)
  from Cons.IH[OF p(2)] p show ?case by simp
qed

lemma designmatrix_body_ok:
  assumes "designmatrix_body m toas incfrozen incoffset s = (Inr (M, ps, us), s')"
  shows "\<exists>free F0 (s1 :: ('v, 'o, 'z) model_state_scheme). select_params incfrozen (attrs s) (params s) = Inr free \<and>
     ps = (if incoffset then [''Offset''] else []) @ free \<and>
     fill_columns m F0 toas ps 0 (np_zeros2 (length toas) (length ps)) [] s1 =
       (Inr (M, us), (s' :: ('v, 'o, 'z) model_state_scheme))"
  using assms
  apply (auto simp: designmatrix_body_def Let_def record_event_def simp del: fill_columns.simps
      split: sum.splits prod.splits)
   apply (rule exI)+
   apply assumption
   apply (rule exI)+
  apply assumption
  done

lemma designmatrix_unfold:
  assumes "fst (designmatrix m toas incfrozen incoffset s) = Inr x"
  shows "\<exists>s2. designmatrix_body m toas incfrozen incoffset
     (if cache s = Inactive then enter_scope s else s) = (Inr x, s2)"
proof -
  let ?s0 = "if cache s = Inactive then enter_scope s else s"
  have "fst (designmatrix_body m toas incfrozen incoffset ?s0) = Inr x"
    using assms unfolding designmatrix_def use_cache_fst .
  then have "designmatrix_body m toas incfrozen incoffset ?s0 =
      (Inr x, snd (designmatrix_body m toas incfrozen incoffset ?s0))"
    by (metis prod.collapse)
  then show ?thesis by blast
qed

lemma designmatrix_zero_column:
  assumes "fst (designmatrix m toas incfrozen incoffset s) = Inr (M, ps, us)"
    "i < length ps" "ps ! i \<noteq> ''Offset''"
    "d_phase_d m (ps ! i) = None" "d_delay_d m (ps ! i) = None"
  shows "cols M ! i = replicate (length toas) 0"
proof -
  from designmatrix_unfold[OF assms(1)] obtain s2 where
    s0: "designmatrix_body m toas incfrozen incoffset
      (if cache s = Inactive then enter_scope s else s) = (Inr (M, ps, us), s2)" by blast
  from designmatrix_body_ok[OF s0] obtain F0 s1 where
    b: "fill_columns m F0 toas ps 0 (np_zeros2 (length toas) (length ps)) [] s1 = (Inr (M, us), s2)"
    by auto
  from fill_columns_skip[OF b assms(2-5)] assms(2) show ?thesis
    by (simp add: np_zeros2_def)
qed


lemma designmatrix_returned:
  assumes "fst (designmatrix m toas False True s) = Inr (M, ps, us)"
  shows "nrows M = length toas \<and> ncols M = Suc (length (free_params s)) \<and>
     length (cols M) = Suc (length (free_params s)) \<and>
     (\<forall>c\<in>set (cols M). length c = length toas) \<and>
     cols M ! 0 = replicate (length toas) 1 \<and>
     ps = ''Offset'' # free_params s"
proof -
  let ?s0 = "if cache s = Inactive then enter_scope s else s"
  have s0: "params ?s0 = params s" "attrs ?s0 = attrs s"
    by (simp_all add: enter_scope_def)
  from designmatrix_unfold[OF assms] obtain s2 where
    bd: "designmatrix_body m toas False True ?s0 = (Inr (M, ps, us), s2)" by blast
  from designmatrix_body_ok[OF bd] obtain free F0 s1 where
    b: "select_params False (attrs ?s0) (params ?s0) = Inr free" "ps = ''Offset'' # free"
      "fill_columns m F0 toas ps 0 (np_zeros2 (length toas) (length ps)) [] s1 = (Inr (M, us), s2)"
    by auto
  have free: "free = free_params s"
    using select_params_free[OF b(1)] s0 by (simp add: free_params_def)
  let ?Z = "np_zeros2 (length toas) (length ps)"
  have z: "nrows ?Z = length toas" "ncols ?Z = length ps" "length (cols ?Z) = length ps"
    "\<forall>c\<in>set (cols ?Z). length c = nrows ?Z"
    by (simp_all add: np_zeros2_def)
  from fill_columns_shape[OF b(3)] z have sh: "nrows M = length toas" "ncols M = length ps"
    "length (cols M) = length ps" "\<forall>c\<in>set (cols M). length c = length toas"
    by auto
  have "0 < length (cols ?Z)" using z(3) b(2) by simp
  from fill_columns_offset[OF b(3)[unfolded b(2)] this[unfolded b(2)]]
  have "cols M ! 0 = replicate (length toas) 1" by (simp add: np_zeros2_def)
  then show ?thesis using sh b(2) free by simp
qed


lemma set_column_fits:
  "ii < ncols M \<Longrightarrow> column_fits (nrows M) a \<Longrightarrow>
   \<exists>M'. set_column M ii a = Inr M' \<and> nrows M' = nrows M \<and> ncols M' = ncols M"
  by (cases a) (auto simp: column_fits_def)

lemma column_fits_div:
  "column_fits n (data (quantity_div q F0)) = column_fits n (data q)"
  by (cases "data q") (auto simp: column_fits_def quantity_div_def)

lemma fill_columns_returns:
  "ii + length ps \<le> ncols M \<Longrightarrow> nrows M = length toas \<Longrightarrow>
   \<forall>par\<in>set ps. par \<noteq> ''Offset'' \<longrightarrow> derivative_ok m toas par \<Longrightarrow>
   \<exists>M' us' s'. fill_columns m F0 toas ps ii M units (s :: ('v, 'o, 'z) model_state_scheme) =
     (Inr (M', us'), s')"
proof (induction ps arbitrary: ii M units s)
  case Nil
  then show ?case by simp
next
  case (Cons par ps)
  have ii: "ii < ncols M" using Cons.prems(1) by simp
  have rest: "\<forall>par\<in>set ps. par \<noteq> ''Offset'' \<longrightarrow> derivative_ok m toas par"
    using Cons.prems(3) by simp
  have ih: "\<exists>M' us' s'. fill_columns m F0 toas ps (Suc ii) M1 u1 s1 = (Inr (M', us'), s')"
    if "nrows M1 = nrows M" "ncols M1 = ncols M" for M1 u1 and s1 :: "('v, 'o, 'z) model_state_scheme"
    using Cons.IH[of "Suc ii" M1 u1 s1] Cons.prems(1,2) rest that by simp
  show ?case
  proof (cases "par = ''Offset''")
    case True
    from set_column_fits[OF ii, of "Scalar 1"] obtain M1 where
      m1: "set_column M ii (Scalar 1) = Inr M1" "nrows M1 = nrows M" "ncols M1 = ncols M"
      by (auto simp: column_fits_def)
    from ih[OF m1(2,3), of "units @ [Dimensionless]" s] True m1(1) show ?thesis
      by (simp del: set_column.simps)
  next
    case False
    with Cons.prems(3) have ok: "derivative_ok m toas par" by simp
    show ?thesis
    proof (cases "d_phase_d m par")
      case (Some f)
      with ok obtain q0 where q: "f toas = Inr q0" "column_fits (length toas) (data q0)"
        by (cases "f toas") (auto simp: derivative_ok_def)
      let ?q = "quantity_div q0 F0"
      have "column_fits (nrows M) (data ?q)"
        using q(2) Cons.prems(2) by (simp add: column_fits_div)
      from set_column_fits[OF ii this] obtain M1 where
        m1: "set_column M ii (data ?q) = Inr M1" "nrows M1 = nrows M" "ncols M1 = ncols M"
        by blast
      from ih[OF m1(2,3), of "units @ [qunit ?q]"
          "record_event (DerivFn (''d_phase_d_'' @ par) toas) s"] False Some q(1) m1(1)
      show ?thesis by (simp add: Let_def del: set_column.simps)
    next
      case None
      show ?thesis
      proof (cases "d_delay_d m par")
        case n2: None
        from ih[of M units s] False None n2 show ?thesis by simp
      next
        case (Some f)
        with ok None obtain q where q: "f toas = Inr q" "column_fits (length toas) (data q)"
          by (cases "f toas") (auto simp: derivative_ok_def)
        have "column_fits (nrows M) (data q)" using q(2) Cons.prems(2) by simp
        from set_column_fits[OF ii this] obtain M1 where
          m1: "set_column M ii (data q) = Inr M1" "nrows M1 = nrows M" "ncols M1 = ncols M"
          by blast
        from ih[OF m1(2,3), of "units @ [qunit q]"
            "record_event (DerivFn (''d_delay_d_'' @ par) toas) s"] False None Some q(1) m1(1)
        show ?thesis by (simp add: Let_def del: set_column.simps)
      qed
    qed
  qed
qed

lemma select_params_returns:
  "\<forall>par\<in>set ps. \<exists>p. ats par = Some (Param p) \<Longrightarrow> \<exists>r. select_params b ats ps = Inr r"
  by (induction ps) auto

lemma designmatrix_returns:
  assumes "\<forall>par\<in>set (params s). \<exists>p. attrs s par = Some (Param p)"
    "F0_per_second (attrs s) = Inr f0"
    "fst (delay m toas s) = Inr d"
    "\<forall>par\<in>set (free_params s). par \<noteq> ''Offset'' \<longrightarrow> derivative_ok m toas par"
  shows "\<exists>M ps us. fst (designmatrix m toas False True s) = Inr (M, ps, us)"
proof -
  let ?s0 = "if cache s = Inactive then enter_scope s else s"
  let ?s1 = "record_event (Ran ''designmatrix'') ?s0"
  have s1: "params ?s1 = params s" "attrs ?s1 = attrs s" "cache ?s1 \<noteq> Inactive"
    by (simp_all add: enter_scope_def record_event_def)
  from select_params_returns[OF assms(1), of False] obtain free where
    fr: "select_params False (attrs s) (params s) = Inr free" by blast
  have free: "free = free_params s"
    using select_params_free[OF fr] by (simp add: free_params_def)
  obtain rd sd where dl: "delay m toas ?s1 = (rd, sd)" by fastforce
  have "rd = Inr d"
    using dl assms(3) delay_value[of m toas s s] delay_value[of m toas ?s1 s] by simp
  let ?ps = "''Offset'' # free"
  have "\<exists>M' us' s'. fill_columns m f0 toas ?ps 0 (np_zeros2 (length toas) (length ?ps)) [] sd =
      (Inr (M', us'), s')"
    using assms(4) free by (intro fill_columns_returns) (simp_all add: np_zeros2_def)
  then obtain M us s' where
    fc: "fill_columns m f0 toas ?ps 0 (np_zeros2 (length toas) (length ?ps)) [] sd = (Inr (M, us), s')"
    by blast
  have "designmatrix_body m toas False True ?s0 = (Inr (M, ?ps, us), s')"
    using fr assms(2) dl \<open>rd = Inr d\<close> fc s1
    by (simp add: designmatrix_body_def Let_def del: fill_columns.simps)
  then have "fst (designmatrix m toas False True s) = Inr (M, ?ps, us)"
    by (simp add: designmatrix_def use_cache_fst)
  then show ?thesis by blast
qed

text \<open>
  C6. \<^verbatim>\<open>designmatrix(toas, incfrozen=False, incoffset=True)\<close> returns whenever every name in
  \<^verbatim>\<open>params\<close> is a parameter of the model, \<^verbatim>\<open>F0\<close> has a numeric value, \<^verbatim>\<open>delay\<close> returns and
  the derivative function picked for each free parameter returns a quantity that fits a
  column. When it returns, the matrix has
  one row for each observation and one column more than the model has free parameters, every
  column has an entry for each observation, the first column is all ones, and the names
  returned are \<^verbatim>\<open>Offset\<close> followed by the free parameters.
\<close>

theorem designmatrix_shape:
  "(fst (designmatrix m toas False True s) = Inr (M, ps, us) \<longrightarrow>
      nrows M = length toas \<and> ncols M = Suc (length (free_params s)) \<and>
      length (cols M) = Suc (length (free_params s)) \<and>
      (\<forall>c\<in>set (cols M). length c = length toas) \<and>
      cols M ! 0 = replicate (length toas) 1 \<and>
      ps = ''Offset'' # free_params s) \<and>
   (list_all (\<lambda>par. case attrs s par of Some (Param p) \<Rightarrow> True | _ \<Rightarrow> False) (params s) \<and>
    F0_per_second (attrs s) = Inr f0 \<and> fst (delay m toas s) = Inr d \<and>
    list_all (\<lambda>par. par = ''Offset'' \<or> derivative_ok m toas par) (free_params s) \<longrightarrow>
      (\<exists>M ps us. fst (designmatrix m toas False True s) = Inr (M, ps, us)))"
proof (intro conjI impI)
  assume a: "fst (designmatrix m toas False True s) = Inr (M, ps, us)"
  note r = designmatrix_returned[OF a]
  from r show "nrows M = length toas" by simp
  from r show "ncols M = Suc (length (free_params s))" by simp
  from r show "length (cols M) = Suc (length (free_params s))" by simp
  from r show "\<forall>c\<in>set (cols M). length c = length toas" by simp
  from r show "cols M ! 0 = replicate (length toas) 1" by simp
  from r show "ps = ''Offset'' # free_params s" by simp
next
  assume a: "list_all (\<lambda>par. case attrs s par of Some (Param p) \<Rightarrow> True | _ \<Rightarrow> False) (params s) \<and>
    F0_per_second (attrs s) = Inr f0 \<and> fst (delay m toas s) = Inr d \<and>
    list_all (\<lambda>par. par = ''Offset'' \<or> derivative_ok m toas par) (free_params s)"
  have p: "\<forall>par\<in>set (params s). \<exists>p. attrs s par = Some (Param p)"
  proof
    fix par
    assume "par \<in> set (params s)"
    with a have "case attrs s par of Some (Param p) \<Rightarrow> True | _ \<Rightarrow> False"
      by (simp add: list_all_iff)
    then show "\<exists>p. attrs s par = Some (Param p)"
      by (cases "attrs s par"; cases "the (attrs s par)") auto
  qed
  have q: "\<forall>par\<in>set (free_params s). par \<noteq> ''Offset'' \<longrightarrow> derivative_ok m toas par"
    using a by (auto simp: list_all_iff)
  from a have "F0_per_second (attrs s) = Inr f0" "fst (delay m toas s) = Inr d" by simp_all
  from designmatrix_returns[OF p this q]
  show "\<exists>M ps us. fst (designmatrix m toas False True s) = Inr (M, ps, us)" .
qed

theorem designmatrix_shape_witness:
  "fst (designmatrix example_model [7, 8, 9] False True example_state) =
     Inr (\<lparr>nrows = 3, ncols = 3, cols = [[1, 1, 1], [2, 2, 2], [0, 0, 0]]\<rparr>,
          [''Offset'', ''F0'', ''DM''],
          [Dimensionless, Per (Named ''s'') (Per Dimensionless (Named ''s''))]) \<and>
   free_params example_state = [''F0'', ''DM''] \<and>
   nrows \<lparr>nrows = 3, ncols = 3, cols = [[1, 1, 1], [2, 2, 2], [0, 0, 0 :: real]]\<rparr> = length [7, 8, 9 :: nat] \<and>
   ncols \<lparr>nrows = 3, ncols = 3, cols = [[1, 1, 1], [2, 2, 2], [0, 0, 0 :: real]]\<rparr> =
     Suc (length (free_params example_state)) \<and>
   cols \<lparr>nrows = 3, ncols = 3, cols = [[1, 1, 1], [2, 2, 2], [0, 0, 0 :: real]]\<rparr> ! 0 =
     replicate (length [7, 8, 9 :: nat]) 1 \<and>
   F0_per_second (attrs example_state) = Inr 100 \<and>
   fst (delay example_model [7, 8, 9] example_state) = Inr [3, 3, 3] \<and>
   derivative_ok example_model [7, 8, 9 :: nat] ''F0'' \<and>
   derivative_ok example_model [7, 8, 9 :: nat] ''DM'' \<and>
   (\<exists>M ps us. fst (designmatrix example_model [7, 8, 9] False True example_state) = Inr (M, ps, us))"
proof -
  have c: "list_all (\<lambda>par. case attrs example_state par of Some (Param p) \<Rightarrow> True | _ \<Rightarrow> False)
      (params example_state) \<and>
    F0_per_second (attrs example_state) = Inr 100 \<and>
    fst (delay example_model [7, 8, 9] example_state) = Inr [3, 3, 3] \<and>
    list_all (\<lambda>par. par = ''Offset'' \<or> derivative_ok example_model [7, 8, 9 :: nat] par)
      (free_params example_state)"
    by code_simp
  have k: "derivative_ok example_model [7, 8, 9 :: nat] ''F0''"
    "derivative_ok example_model [7, 8, 9 :: nat] ''DM''"
    by code_simp+
  note e = designmatrix_shape [THEN conjunct2, rule_format, OF c]
  have h: "fst (designmatrix example_model [7, 8, 9] False True example_state) =
     Inr (\<lparr>nrows = 3, ncols = 3, cols = [[1, 1, 1], [2, 2, 2], [0, 0, 0]]\<rparr>,
          [''Offset'', ''F0'', ''DM''],
          [Dimensionless, Per (Named ''s'') (Per Dimensionless (Named ''s''))])"
    by code_simp
  have f: "free_params example_state = [''F0'', ''DM'']"
    by code_simp
  show ?thesis
    using h f c k e designmatrix_shape [THEN conjunct1, rule_format, OF h, unfolded f] by simp
qed

text \<open>
  C3. The claim: a design-matrix column or a derivative asked for a parameter that has no
  analytic phase derivative, no delay derivative and no numeric path fails with the condition
  \<^verbatim>\<open>Unavailable derivative\<close> and never gives a silent column of zeros. The code has no
  such condition. What holds instead: \<^verbatim>\<open>designmatrix\<close> passes over a parameter, other than
  \<^verbatim>\<open>Offset\<close>, that has neither function, so that when it returns the column of that
  parameter still holds the zeros of \<^verbatim>\<open>np.zeros\<close>; and \<^verbatim>\<open>d_phase_d_param\<close> for a name
  without analytic function returns the \<^verbatim>\<open>0.0\<close> of the unimplemented
  \<^verbatim>\<open>d_phase_d_param_num\<close>.
\<close>

theorem missing_derivative_gives_zeros:
  "(fst (designmatrix m toas incfrozen incoffset s) = Inr (M, ps, us) \<and> i < length ps \<and>
    ps ! i \<noteq> ''Offset'' \<and> d_phase_d m (ps ! i) = None \<and> d_delay_d m (ps ! i) = None \<longrightarrow>
      cols M ! i = replicate (length toas) 0) \<and>
   (d_phase_d m param = None \<longrightarrow> fst (d_phase_d_param m toas param s) = Inr (PyFloat 0))"
proof (intro conjI impI)
  assume "fst (designmatrix m toas incfrozen incoffset s) = Inr (M, ps, us) \<and> i < length ps \<and>
    ps ! i \<noteq> ''Offset'' \<and> d_phase_d m (ps ! i) = None \<and> d_delay_d m (ps ! i) = None"
  then show "cols M ! i = replicate (length toas) 0"
    using designmatrix_zero_column by blast
next
  assume "d_phase_d m param = None"
  then show "fst (d_phase_d_param m toas param s) = Inr (PyFloat 0)"
    by (auto simp: d_phase_d_param_def d_phase_d_param_body_def d_phase_d_param_num_def
        use_cache_def enter_scope_def record_event_def split: attr.splits)
qed

theorem missing_derivative_gives_zeros_witness:
  "fst (designmatrix example_model [7] True True example_state) =
     Inr (\<lparr>nrows = 1, ncols = 4, cols = [[1], [0], [2], [0]]\<rparr>,
          [''Offset'', ''PSR'', ''F0'', ''DM''],
          [Dimensionless, Per (Named ''s'') (Per Dimensionless (Named ''s''))]) \<and>
   [''Offset'', ''PSR'', ''F0'', ''DM''] ! 3 = ''DM'' \<and>
   d_phase_d example_model ''DM'' = None \<and> d_delay_d example_model ''DM'' = None \<and>
   cols \<lparr>nrows = 1, ncols = 4, cols = [[1], [0], [2], [0 :: real]]\<rparr> ! 3 = replicate (length [7 :: nat]) 0 \<and>
   fst (d_phase_d_param example_model [7] ''DM'' example_state) = Inr (PyFloat 0)"
proof -
  have h: "fst (designmatrix example_model [7] True True example_state) =
     Inr (\<lparr>nrows = 1, ncols = 4, cols = [[1], [0], [2], [0]]\<rparr>,
          [''Offset'', ''PSR'', ''F0'', ''DM''],
          [Dimensionless, Per (Named ''s'') (Per Dimensionless (Named ''s''))])"
    by code_simp
  have d: "d_phase_d example_model ''DM'' = None" "d_delay_d example_model ''DM'' = None"
    by (simp_all add: example_model_def TimingModel_components_def)
  have n: "[''Offset'', ''PSR'', ''F0'', ''DM''] ! 3 = ''DM''"
    by (simp add: numeral_3_eq_3)
  show ?thesis
    using h d n
      missing_derivative_gives_zeros [of example_model "[7]" True True example_state
        "\<lparr>nrows = 1, ncols = 4, cols = [[1], [0], [2], [0]]\<rparr>" "[''Offset'', ''PSR'', ''F0'', ''DM'']"
        "[Dimensionless, Per (Named ''s'') (Per Dimensionless (Named ''s''))]" 3 "''DM''"]
    by simp
qed

text \<open>
  C3, the counterexample: in the example model the free parameter \<^verbatim>\<open>DM\<close> has no derivative
  function of either kind; \<^verbatim>\<open>designmatrix\<close> returns a matrix whose \<^verbatim>\<open>DM\<close> column is all
  zeros, and \<^verbatim>\<open>d_phase_d_param\<close> returns \<^verbatim>\<open>0.0\<close>.
\<close>

theorem unavailable_derivative_counterexample:
  "d_phase_d example_model ''DM'' = None \<and> d_delay_d example_model ''DM'' = None \<and>
   fst (designmatrix example_model [7, 8] False True example_state) =
     Inr (\<lparr>nrows = 2, ncols = 3, cols = [[1, 1], [2, 2], [0, 0]]\<rparr>,
          [''Offset'', ''F0'', ''DM''],
          [Dimensionless, Per (Named ''s'') (Per Dimensionless (Named ''s''))]) \<and>
   fst (d_phase_d_param example_model [7, 8] ''DM'' example_state) = Inr (PyFloat 0)"
proof -
  have "d_phase_d example_model ''DM'' = None" "d_delay_d example_model ''DM'' = None"
    by (simp_all add: example_model_def TimingModel_components_def)
  moreover have "fst (designmatrix example_model [7, 8] False True example_state) =
     Inr (\<lparr>nrows = 2, ncols = 3, cols = [[1, 1], [2, 2], [0, 0]]\<rparr>,
          [''Offset'', ''F0'', ''DM''],
          [Dimensionless, Per (Named ''s'') (Per Dimensionless (Named ''s''))])"
    by code_simp
  moreover have "fst (d_phase_d_param example_model [7, 8] ''DM'' example_state) = Inr (PyFloat 0)"
    by code_simp
  ultimately show ?thesis by simp
qed

text \<open>
  C7. The claim: \<^verbatim>\<open>d_phase_d_param\<close> returns the result of the analytic function when the
  model has one and otherwise that of the numeric estimator, a vector with one derivative
  for each observation. The dispatch is as claimed: the result is that of the analytic
  function (or its error) when the model has one, and that of \<^verbatim>\<open>d_phase_d_param_num\<close>
  otherwise. But the numeric path is not implemented: it returns the float \<^verbatim>\<open>0.0\<close> whatever
  the observations are, not a vector.
\<close>

theorem d_phase_d_param_dispatch:
  "fst (d_phase_d_param m toas param s) =
     (case d_phase_d m param of
        Some f \<Rightarrow> (case f toas of Inl e \<Rightarrow> Inl e | Inr q \<Rightarrow> Inr (PyQuantity q))
      | None \<Rightarrow> fst (d_phase_d_param_num m toas param s)) \<and>
   fst (d_phase_d_param_num m toas param s) = Inr (PyFloat 0)"
  by (auto simp: d_phase_d_param_def d_phase_d_param_body_def d_phase_d_param_num_def
      use_cache_def enter_scope_def record_event_def Let_def
      split: attr.splits option.splits sum.splits)

text \<open>
  C7, the counterexample: for the parameter \<^verbatim>\<open>DM\<close> of the example model, which has no
  analytic derivative, and two observations the result is the float \<^verbatim>\<open>0.0\<close>.
\<close>

theorem numeric_derivative_counterexample:
  "d_phase_d example_model ''DM'' = None \<and>
   fst (d_phase_d_param example_model [7, 8] ''DM'' example_state) = Inr (PyFloat 0) \<and>
   \<not> per_observation [7, 8 :: nat] (PyFloat 0)"
proof -
  have "d_phase_d example_model ''DM'' = None"
    by (simp add: example_model_def TimingModel_components_def)
  moreover have "fst (d_phase_d_param example_model [7, 8] ''DM'' example_state) = Inr (PyFloat 0)"
    by code_simp
  moreover have "\<not> per_observation [7, 8 :: nat] (PyFloat 0)"
    by (simp add: per_observation_def)
  ultimately show ?thesis by simp
qed

section \<open>is\_in\_parfile and the list of parameters\<close>

lemma list_index_del:
  "list_del xs (case list_index xs x of Inl e \<Rightarrow> length xs | Inr i \<Rightarrow> i) = remove1 x xs"
  by (induction xs) (auto simp: list_del_def split: sum.splits)

lemma is_in_parfile_state:
  "snd (is_in_parfile para_dict s) = s\<lparr>params := remove1 ''PSR'' (params s)\<rparr>"
proof (cases "list_index (params s) ''PSR''")
  case (Inl e)
  with list_index_del[of "params s" "''PSR''"] have r: "remove1 ''PSR'' (params s) = params s"
    by (simp add: list_del_def)
  show ?thesis
    using Inl r by (simp add: is_in_parfile_def Let_def split: option.splits)
next
  case (Inr i)
  with list_index_del[of "params s" "''PSR''"] have r: "list_del (params s) i = remove1 ''PSR'' (params s)"
    by simp
  show ?thesis
    using Inr r by (simp add: is_in_parfile_def Let_def split: option.splits)
qed

lemma select_params_subset:
  "select_params b ats ps = Inr r \<Longrightarrow> set r \<subseteq> set ps"
proof (induction ps arbitrary: r)
  case Nil
  then show ?case by simp
next
  case (Cons par ps)
  from Cons.prems obtain r' where r': "select_params b ats ps = Inr r'" "set r \<subseteq> insert par (set r')"
    by (auto split: if_splits option.splits pyattr.splits sum.splits)
  from Cons.IH[OF r'(1)] r'(2) show ?case by auto
qed

lemma designmatrix_names:
  assumes "fst (designmatrix m toas incfrozen incoffset s) = Inr (M, ps, us)"
  shows "set ps \<subseteq> insert ''Offset'' (set (params s))"
proof -
  let ?s0 = "if cache s = Inactive then enter_scope s else s"
  have s0: "params ?s0 = params s" by (simp add: enter_scope_def)
  from designmatrix_unfold[OF assms] obtain s2 where
    bd: "designmatrix_body m toas incfrozen incoffset ?s0 = (Inr (M, ps, us), s2)" by blast
  from designmatrix_body_ok[OF bd] obtain free where
    b: "select_params incfrozen (attrs ?s0) (params ?s0) = Inr free"
      "ps = (if incoffset then [''Offset''] else []) @ free"
    by blast
  from select_params_subset[OF b(1)] b(2) s0 show ?thesis by auto
qed

text \<open>
  C10. On every path, also the ones that return early or raise, \<^verbatim>\<open>is_in_parfile\<close> leaves
  the model as it was except that the first \<^verbatim>\<open>PSR\<close> is gone from \<^verbatim>\<open>params\<close>. Parameter
  names are unique in a model; then, if \<^verbatim>\<open>PSR\<close> was in the list, it is in it no more, the
  list is shorter, and an operation that walks \<^verbatim>\<open>params\<close> afterwards, such as
  \<^verbatim>\<open>designmatrix\<close>, does not meet \<^verbatim>\<open>PSR\<close>.
\<close>

theorem is_in_parfile_removes_PSR:
  "snd (is_in_parfile para_dict s) = s\<lparr>params := remove1 ''PSR'' (params s)\<rparr> \<and>
   (''PSR'' \<in> set (params s) \<and> distinct (params s) \<longrightarrow>
      ''PSR'' \<notin> set (params (snd (is_in_parfile para_dict s))) \<and>
      length (params (snd (is_in_parfile para_dict s))) < length (params s) \<and>
      (fst (designmatrix m toas incfrozen incoffset (snd (is_in_parfile para_dict s))) =
         Inr (M, ps, us) \<longrightarrow> ''PSR'' \<notin> set ps))"
proof (intro conjI impI)
  show "snd (is_in_parfile para_dict s) = s\<lparr>params := remove1 ''PSR'' (params s)\<rparr>"
    by (rule is_in_parfile_state)
next
  assume a: "''PSR'' \<in> set (params s) \<and> distinct (params s)"
  then show "''PSR'' \<notin> set (params (snd (is_in_parfile para_dict s)))"
    by (simp add: is_in_parfile_state)
  from a show "length (params (snd (is_in_parfile para_dict s))) < length (params s)"
    by (simp add: is_in_parfile_state length_remove1) (cases "params s"; auto)
  assume "fst (designmatrix m toas incfrozen incoffset (snd (is_in_parfile para_dict s))) =
      Inr (M, ps, us)"
  from designmatrix_names[OF this] a show "''PSR'' \<notin> set ps"
    by (auto simp: is_in_parfile_state)
qed

theorem is_in_parfile_removes_PSR_witness:
  "''PSR'' \<in> set (params example_state) \<and> distinct (params example_state) \<and>
   fst (designmatrix example_model [7] True True example_state) =
     Inr (\<lparr>nrows = 1, ncols = 4, cols = [[1], [0], [2], [0]]\<rparr>,
          [''Offset'', ''PSR'', ''F0'', ''DM''],
          [Dimensionless, Per (Named ''s'') (Per Dimensionless (Named ''s''))]) \<and>
   is_in_parfile [(''PSR'', [''J0000'']), (''F0'', [''100''])] example_state =
     (Inr True, example_state\<lparr>params := [''F0'', ''DM'']\<rparr>) \<and>
   fst (designmatrix example_model [7] True True
         (snd (is_in_parfile [(''PSR'', [''J0000'']), (''F0'', [''100''])] example_state))) =
     Inr (\<lparr>nrows = 1, ncols = 3, cols = [[1], [2], [0]]\<rparr>,
          [''Offset'', ''F0'', ''DM''],
          [Dimensionless, Per (Named ''s'') (Per Dimensionless (Named ''s''))]) \<and>
   ''PSR'' \<notin> set [''Offset'', ''F0'', ''DM'']"
proof -
  have p: "''PSR'' \<in> set (params example_state)" "distinct (params example_state)"
    by (simp_all add: example_state_def TimingModel_init_def)
  have b: "fst (designmatrix example_model [7] True True example_state) =
     Inr (\<lparr>nrows = 1, ncols = 4, cols = [[1], [0], [2], [0]]\<rparr>,
          [''Offset'', ''PSR'', ''F0'', ''DM''],
          [Dimensionless, Per (Named ''s'') (Per Dimensionless (Named ''s''))])"
    by code_simp
  have r: "is_in_parfile [(''PSR'', [''J0000'']), (''F0'', [''100''])] example_state =
     (Inr True, example_state\<lparr>params := [''F0'', ''DM'']\<rparr>)"
    by (simp add: is_in_parfile_def example_state_def TimingModel_init_def list_del_def
        binary_check_def)
  have d: "fst (designmatrix example_model [7] True True
         (snd (is_in_parfile [(''PSR'', [''J0000'']), (''F0'', [''100''])] example_state))) =
     Inr (\<lparr>nrows = 1, ncols = 3, cols = [[1], [2], [0]]\<rparr>,
          [''Offset'', ''F0'', ''DM''],
          [Dimensionless, Per (Named ''s'') (Per Dimensionless (Named ''s''))])"
    by code_simp
  from is_in_parfile_removes_PSR [of "[(''PSR'', [''J0000'']), (''F0'', [''100''])]" example_state
      example_model "[7]" True True "\<lparr>nrows = 1, ncols = 3, cols = [[1], [2], [0]]\<rparr>"
      "[''Offset'', ''F0'', ''DM'']"
      "[Dimensionless, Per (Named ''s'') (Per Dimensionless (Named ''s''))]"] p d
  have "''PSR'' \<notin> set [''Offset'', ''F0'', ''DM'']" by blast
  with p b r d show ?thesis by blast
qed

section \<open>Repeated names in a parfile\<close>












end
